theory Spec2Isabelle
  imports Complex_Main
begin

section \<open>Data model of \<open>clairvoyant/Backtest.py\<close>\<close>

text \<open>
  A Python float is modelled by the real number it denotes, so a comparison of floats is
  a comparison of reals. A NaN handed in by a collaborator would fail every comparison
  of the source, as an outcome of 0 or a confidence below the threshold does, and is not
  modelled apart. The one place where the source does float arithmetic, lines 160 and
  164, is modelled with every result rounded to the nearest double. Python integers are
  unbounded and are modelled by \<open>int\<close>.
\<close>

datatype error = IndexError | KeyError | ValueError | ZeroDivisionError | OverflowError

text \<open>
  The attributes of a \<open>Backtest\<close> object (lines 23--46). \<open>'t\<close> is the type of
  timezone-aware instants, \<open>'m\<close> the type of classifier objects.
\<close>

record ('t, 'm) backtest =
  variables :: "string list"
  trainStart :: 't
  trainEnd :: 't
  testStart :: 't
  testEnd :: 't
  buyThreshold :: real
  sellThreshold :: real
  C :: real
  gamma :: real
  continuedTraining :: bool
  stocks :: "string list"
  dates :: "string list list"
  totalBuys :: int
  correctBuys :: int
  totalSells :: int
  correctSells :: int
  XX :: "real list list option"
  yy :: "int list option"
  model :: "'m option"

text \<open>
  The collaborators that \<open>Backtest.py\<close> imports and calls but does not define:
  \<open>clairvoyant.utils\<close> (\<open>DateIndex\<close>, \<open>FindConditions\<close>, \<open>PercentChange\<close>,
  \<open>Predict\<close>), the classifier (\<open>SVC\<close> and its \<open>fit\<close>), the date column of the data
  frame, and the plotting stack used by \<open>visualizeModel\<close>. Each may raise.
  The classifier is taken as a function of its training data, as the specification does.
\<close>

record ('d, 't, 'm) collab =
  DateIndex :: "'d \<Rightarrow> 't \<Rightarrow> bool \<Rightarrow> string \<Rightarrow> error + int"
  dateStr :: "'d \<Rightarrow> int \<Rightarrow> error + string"
  FindConditions :: "'d \<Rightarrow> int \<Rightarrow> string \<Rightarrow> error + real"
  PercentChange :: "'d \<Rightarrow> int \<Rightarrow> error + real"
  SVC :: "real \<Rightarrow> real \<Rightarrow> 'm"
  fit :: "'m \<Rightarrow> real list list \<Rightarrow> int list \<Rightarrow> error + 'm"
  Predict :: "'m \<Rightarrow> real list \<Rightarrow> error + real \<times> real"
  standardize :: "real list list \<Rightarrow> error + real list list"
  mesh :: "'m \<Rightarrow> real list list \<Rightarrow> real \<Rightarrow> real \<Rightarrow> real \<Rightarrow> error option"
  draw :: "'m \<Rightarrow> real list list \<Rightarrow> int list \<Rightarrow> string \<Rightarrow> error option"
  savefig :: "string \<Rightarrow> error option"

subsection \<open>Construction (lines 19--46)\<close>

text \<open>
  \<open>tz\<close> stands for \<open>\<lambda>x. tz.localize(to_datetime(x))\<close>, the only fallible step of the
  constructor. The four conversions run in the order of the source.
\<close>

definition Backtest_init ::
  "('r \<Rightarrow> error + 't) \<Rightarrow> string list \<Rightarrow> 'r \<Rightarrow> 'r \<Rightarrow> 'r \<Rightarrow> 'r \<Rightarrow> real \<Rightarrow> real \<Rightarrow> real \<Rightarrow> real \<Rightarrow> bool
     \<Rightarrow> error + ('t, 'm) backtest" where
  "Backtest_init tz vars trS trE teS teE buyT sellT c g ct =
     (case tz trS of
        Inl e \<Rightarrow> Inl e
      | Inr a \<Rightarrow>
     (case tz trE of
        Inl e \<Rightarrow> Inl e
      | Inr b \<Rightarrow>
     (case tz teS of
        Inl e \<Rightarrow> Inl e
      | Inr c' \<Rightarrow>
     (case tz teE of
        Inl e \<Rightarrow> Inl e
      | Inr d' \<Rightarrow>
          Inr \<lparr> variables = vars, trainStart = a, trainEnd = b, testStart = c', testEnd = d',
                buyThreshold = buyT, sellThreshold = sellT, C = c, gamma = g,
                continuedTraining = ct,
                stocks = [], dates = [],
                totalBuys = 0, correctBuys = 0, totalSells = 0, correctSells = 0,
                XX = None, yy = None, model = None \<rparr>))))"

subsection \<open>Accuracy statistics (lines 159--165)\<close>

text \<open>Python 3 \<open>round(x, 2)\<close> on an exact value: to the nearest hundredth, ties to even.\<close>

definition round_half_even :: "real \<Rightarrow> int" where
  "round_half_even r =
     (let f = \<lfloor>r\<rfloor>; d = r - of_int f
      in if d < 1/2 then f else if 1/2 < d then f + 1 else if even f then f else f + 1)"

definition round2 :: "real \<Rightarrow> real" where
  "round2 x = of_int (round_half_even (x * 100)) / 100"

text \<open>
  IEEE 754 binary64, round to nearest, ties to even. \<open>norm_exp\<close> finds the binary
  exponent of a positive real by halving and doubling (the fuel 2100 covers every
  exponent a double can have); below \<open>2^-1022\<close> the spacing is that of the subnormals.
\<close>

definition pow2 :: "int \<Rightarrow> real" where
  "pow2 k = (if 0 \<le> k then 2 ^ nat k else 1 / 2 ^ nat (- k))"

fun norm_exp :: "nat \<Rightarrow> real \<Rightarrow> int" where
  "norm_exp 0 x = 0"
| "norm_exp (Suc n) x =
     (if 2 \<le> x then norm_exp n (x / 2) + 1
      else if x < 1 then norm_exp n (x * 2) - 1
      else 0)"

definition double :: "real \<Rightarrow> real" where
  "double x =
     (if x = 0 then 0
      else (let u = pow2 (max (norm_exp 2100 \<bar>x\<bar>) (- 1022) - 52)
            in of_int (round_half_even (x / u)) * u))"

text \<open>A float that is not NaN: the statistics cannot produce one.\<close>

datatype pyfloat = Fin real | PosInf | NegInf

text \<open>The result of a float operation whose exact value is \<open>r\<close>: overflow gives an infinity.\<close>

definition to_float :: "real \<Rightarrow> pyfloat" where
  "to_float r =
     (let v = double r
      in if 2 ^ 1024 \<le> \<bar>v\<bar> then (if 0 < v then PosInf else NegInf) else Fin v)"

text \<open>\<open>float(n)\<close> for an integer, also the conversion of an integer operand: it raises on overflow.\<close>

definition float_of_int :: "int \<Rightarrow> error + real" where
  "float_of_int n =
     (let v = double (of_int n) in if 2 ^ 1024 \<le> \<bar>v\<bar> then Inl OverflowError else Inr v)"

text \<open>\<open>a / n\<close> for a float \<open>a\<close> and an integer \<open>n\<close>: raises on a zero divisor.\<close>

definition float_div :: "real \<Rightarrow> int \<Rightarrow> error + pyfloat" where
  "float_div a n =
     (case float_of_int n of
        Inl e \<Rightarrow> Inl e
      | Inr b \<Rightarrow> (if b = 0 then Inl ZeroDivisionError else Inr (to_float (a / b))))"

text \<open>\<open>x * 100\<close>.\<close>

definition times100 :: "pyfloat \<Rightarrow> pyfloat" where
  "times100 x = (case x of Fin q \<Rightarrow> to_float (q * 100) | PosInf \<Rightarrow> PosInf | NegInf \<Rightarrow> NegInf)"

text \<open>
  \<open>round(x, 2)\<close> on a float: the exact value of \<open>x\<close> rounded to hundredths, then the
  nearest double; an infinity rounds to itself.
\<close>

definition py_round2 :: "pyfloat \<Rightarrow> error + pyfloat" where
  "py_round2 x =
     (case x of
        Fin y \<Rightarrow> (let v = double (round2 y)
                  in if 2 ^ 1024 \<le> \<bar>v\<bar> then Inl OverflowError else Inr (Fin v))
      | PosInf \<Rightarrow> Inr PosInf
      | NegInf \<Rightarrow> Inr NegInf)"

text \<open>The handler of lines 161 and 165: any other exception propagates.\<close>

definition except_ZeroDivisionError :: "error \<Rightarrow> error + pyfloat" where
  "except_ZeroDivisionError e = (if e = ZeroDivisionError then Inr (Fin 0) else Inl e)"

text \<open>
  The body shared by \<open>buyStats\<close> and \<open>sellStats\<close>:
  \<open>round((float(correct)/total)*100, 2)\<close> inside the \<open>try\<close>.
\<close>

definition stats :: "int \<Rightarrow> int \<Rightarrow> error + pyfloat" where
  "stats correct tot =
     (case float_of_int correct of
        Inl e \<Rightarrow> except_ZeroDivisionError e
      | Inr a \<Rightarrow>
          (case float_div a tot of
             Inl e \<Rightarrow> except_ZeroDivisionError e
           | Inr q \<Rightarrow>
               (case py_round2 (times100 q) of
                  Inl e \<Rightarrow> except_ZeroDivisionError e
                | Inr v \<Rightarrow> Inr v)))"

definition buyStats :: "('t, 'm) backtest \<Rightarrow> error + pyfloat" where
  "buyStats s = stats (correctBuys s) (totalBuys s)"

definition sellStats :: "('t, 'm) backtest \<Rightarrow> error + pyfloat" where
  "sellStats s = stats (correctSells s) (totalSells s)"

subsection \<open>The walk-forward run (lines 48--157)\<close>

text \<open>The local variables of \<open>runModel\<close> that live across iterations of the test loop.\<close>

record 'm locals =
  testPeriod :: int
  loc_X :: "real list list"
  loc_y :: "int list"
  loc_XX :: "real list list"
  loc_yy :: "int list"
  loc_model :: 'm

text \<open>
  An observation log, not part of the program's state: what the test loop did, in order.
  \<open>Decided t neg pos prediction s\<close> records the cursor at which the features were taken,
  the two confidences, the prediction, and the object after lines 106--110;
  \<open>Judged t perf s\<close> records the cursor passed to \<open>PercentChange\<close> on line 120, its
  result, and the object after lines 123--134.
\<close>

datatype ('t, 'm) event =
  Decided int real real int "('t, 'm) backtest"
| Judged int real "('t, 'm) backtest"

fun stateOf :: "('t, 'm) event \<Rightarrow> ('t, 'm) backtest" where
  "stateOf (Decided t neg pos p s) = s"
| "stateOf (Judged t perf s) = s"

text \<open>The inner loop over \<open>self.variables\<close> (lines 68--70 and 96--98).\<close>

fun conditions :: "('d, 't, 'm) collab \<Rightarrow> 'd \<Rightarrow> int \<Rightarrow> string list \<Rightarrow> error + real list" where
  "conditions env d i [] = Inr []"
| "conditions env d i (var # vars) =
     (case FindConditions env d i var of
        Inl e \<Rightarrow> Inl e
      | Inr x \<Rightarrow> (case conditions env d i vars of Inl e \<Rightarrow> Inl e | Inr xs \<Rightarrow> Inr (x # xs)))"

text \<open>Lines 74--75 and 147--148: the label of a percent change.\<close>

definition label :: "real \<Rightarrow> int" where
  "label y1 = (if y1 > 0 then 1 else 0)"

text \<open>
  The training loop (lines 66--75) over the indices of \<open>range(trainStart, trainEnd+1)\<close>,
  with the accumulators \<open>X\<close> and \<open>y\<close>.
\<close>

fun training ::
  "('d, 't, 'm) collab \<Rightarrow> 'd \<Rightarrow> string list \<Rightarrow> int list \<Rightarrow> real list list \<Rightarrow> int list
     \<Rightarrow> error + real list list \<times> int list" where
  "training env d vars [] X y = Inr (X, y)"
| "training env d vars (i # is) X y =
     (case conditions env d i vars of
        Inl e \<Rightarrow> Inl e
      | Inr Xs \<Rightarrow>
          (case PercentChange env d (i + 1) of
             Inl e \<Rightarrow> Inl e
           | Inr y1 \<Rightarrow> training env d vars is (X @ [Xs]) (y @ [label y1])))"

text \<open>
  \<open>numpy.vstack\<close> and \<open>numpy.hstack\<close> raise \<open>ValueError\<close> on an empty sequence. The
  rows handed to \<open>vstack\<close> all have the length of \<open>self.variables\<close>, so no shape error
  can arise.
\<close>

definition vstack :: "real list list \<Rightarrow> error + real list list" where
  "vstack X = (if X = [] then Inl ValueError else Inr X)"

definition hstack :: "int list \<Rightarrow> error + int list" where
  "hstack y = (if y = [] then Inl ValueError else Inr y)"

text \<open>Lines 102--104.\<close>

definition decide :: "('t, 'm) backtest \<Rightarrow> real \<Rightarrow> real \<Rightarrow> int" where
  "decide s neg pos =
     (if pos \<ge> buyThreshold s then 1 else if neg \<ge> sellThreshold s then - 1 else 0)"

text \<open>Lines 106--110.\<close>

definition tally :: "int \<Rightarrow> ('t, 'm) backtest \<Rightarrow> ('t, 'm) backtest" where
  "tally prediction s =
     (if prediction = 1 then s\<lparr>totalBuys := totalBuys s + 1\<rparr>
      else if prediction = - 1 then s\<lparr>totalSells := totalSells s + 1\<rparr>
      else s)"

text \<open>Lines 123--134, the four cases in the order of the source.\<close>

definition judge :: "int \<Rightarrow> real \<Rightarrow> ('t, 'm) backtest \<Rightarrow> ('t, 'm) backtest" where
  "judge prediction nextPeriodPerformance s =
     (if prediction = 1 \<and> nextPeriodPerformance > 0 then s\<lparr>correctBuys := correctBuys s + 1\<rparr>
      else if prediction = 1 \<and> nextPeriodPerformance \<le> 0 then s
      else if prediction = - 1 \<and> nextPeriodPerformance < 0 then s\<lparr>correctSells := correctSells s + 1\<rparr>
      else if prediction = - 1 \<and> nextPeriodPerformance \<ge> 0 then s
      else s)"

text \<open>Lines 143--152: the model update, when continued training is on.\<close>

definition retrain ::
  "('d, 't, 'm) collab \<Rightarrow> ('t, 'm) backtest \<Rightarrow> real list \<Rightarrow> real \<Rightarrow> 'm locals \<Rightarrow> error + 'm locals" where
  "retrain env s Xs nextPeriodPerformance L =
     (if continuedTraining s = True then
        (let L1 = L\<lparr>loc_X := loc_X L @ [Xs]\<rparr>;
             L2 = L1\<lparr>loc_y := loc_y L1 @ [label nextPeriodPerformance]\<rparr>
         in case vstack (loc_X L2) of
              Inl e \<Rightarrow> Inl e
            | Inr XX' \<Rightarrow>
                (case hstack (loc_y L2) of
                   Inl e \<Rightarrow> Inl e
                 | Inr yy' \<Rightarrow>
                     (case fit env (loc_model L2) XX' yy' of
                        Inl e \<Rightarrow> Inl e
                      | Inr m \<Rightarrow> Inr (L2\<lparr>loc_XX := XX', loc_yy := yy', loc_model := m\<rparr>))))
      else Inr L)"

text \<open>
  One pass through the body of the \<open>while\<close> loop (lines 96--152). The result is the
  exception raised, if any, the locals, the object as it stands at that point (a raise
  does not undo the increments already made), and the log of the pass.
\<close>

definition period ::
  "('d, 't, 'm) collab \<Rightarrow> 'd \<Rightarrow> 'm locals \<Rightarrow> ('t, 'm) backtest
     \<Rightarrow> error option \<times> 'm locals \<times> ('t, 'm) backtest \<times> ('t, 'm) event list" where
  "period env d L s =
     (case conditions env d (testPeriod L) (variables s) of
        Inl e \<Rightarrow> (Some e, L, s, [])
      | Inr Xs \<Rightarrow>
          (case Predict env (loc_model L) Xs of
             Inl e \<Rightarrow> (Some e, L, s, [])
           | Inr (neg, pos) \<Rightarrow>
               (let prediction = decide s neg pos;
                    s1 = tally prediction s;
                    ev1 = Decided (testPeriod L) neg pos prediction s1;
                    L1 = L\<lparr>testPeriod := testPeriod L + 1\<rparr>
                in case PercentChange env d (testPeriod L1) of
                     Inl e \<Rightarrow> (Some e, L1, s1, [ev1])
                   | Inr nextPeriodPerformance \<Rightarrow>
                       (let s2 = judge prediction nextPeriodPerformance s1;
                            ev2 = Judged (testPeriod L1) nextPeriodPerformance s2
                        in case retrain env s2 Xs nextPeriodPerformance L1 of
                             Inl e \<Rightarrow> (Some e, L1, s2, [ev1, ev2])
                           | Inr L2 \<Rightarrow> (None, L2, s2, [ev1, ev2])))))"

text \<open>The \<open>while\<close> loop of lines 88--152.\<close>

function testLoop ::
  "('d, 't, 'm) collab \<Rightarrow> 'd \<Rightarrow> int \<Rightarrow> 'm locals \<Rightarrow> ('t, 'm) backtest
     \<Rightarrow> error option \<times> 'm locals \<times> ('t, 'm) backtest \<times> ('t, 'm) event list" where
  "testLoop env d tEnd L s =
     (if testPeriod L < tEnd then
        (case period env d L s of
           (Some e, L', s', evs) \<Rightarrow> (Some e, L', s', evs)
         | (None, L', s', evs) \<Rightarrow>
             (case testLoop env d tEnd L' s' of
                (r, L'', s'', evs') \<Rightarrow> (r, L'', s'', evs @ evs')))
      else (None, L, s, []))"
  by pat_completeness auto
termination
  by (relation "measure (\<lambda>(env, d, tEnd, L, s). nat (tEnd - testPeriod L))")
     (auto simp: period_def retrain_def Let_def split: sum.splits prod.splits if_splits)

declare testLoop.simps [simp del]

text \<open>
  Lines 49--59 up to the \<open>append\<close>: the last stock (\<open>self.stocks[len(self.stocks)-1]\<close>
  raises on an empty list), the four window indices, and the four formatted dates.
\<close>

definition resolve ::
  "('d, 't, 'm) collab \<Rightarrow> ('t, 'm) backtest \<Rightarrow> 'd \<Rightarrow> error + (int \<times> int \<times> int \<times> int) \<times> string list" where
  "resolve env s d =
     (if stocks s = [] then Inl IndexError
      else
        (let stock = last (stocks s)
         in (case DateIndex env d (trainStart s) False stock of Inl e \<Rightarrow> Inl e | Inr trS \<Rightarrow>
            (case DateIndex env d (trainEnd s) True stock of Inl e \<Rightarrow> Inl e | Inr trE \<Rightarrow>
            (case DateIndex env d (testStart s) False stock of Inl e \<Rightarrow> Inl e | Inr teS \<Rightarrow>
            (case DateIndex env d (testEnd s) True stock of Inl e \<Rightarrow> Inl e | Inr teE \<Rightarrow>
            (case dateStr env d trS of Inl e \<Rightarrow> Inl e | Inr a \<Rightarrow>
            (case dateStr env d trE of Inl e \<Rightarrow> Inl e | Inr b \<Rightarrow>
            (case dateStr env d teS of Inl e \<Rightarrow> Inl e | Inr c \<Rightarrow>
            (case dateStr env d teE of Inl e \<Rightarrow> Inl e | Inr e' \<Rightarrow>
               Inr ((trS, trE, teS, teE), [a, b, c, e'])))))))))))"

text \<open>Lines 65--81: the initial training set and the first fit.\<close>

definition initialTraining ::
  "('d, 't, 'm) collab \<Rightarrow> ('t, 'm) backtest \<Rightarrow> 'd \<Rightarrow> int \<Rightarrow> int \<Rightarrow> int \<Rightarrow> error + 'm locals" where
  "initialTraining env s d trS trE teS =
     (case training env d (variables s) [trS..trE] [] [] of
        Inl e \<Rightarrow> Inl e
      | Inr (X, y) \<Rightarrow>
          (case vstack X of
             Inl e \<Rightarrow> Inl e
           | Inr XX' \<Rightarrow>
               (case hstack y of
                  Inl e \<Rightarrow> Inl e
                | Inr yy' \<Rightarrow>
                    (case fit env (SVC env (C s) (gamma s)) XX' yy' of
                       Inl e \<Rightarrow> Inl e
                     | Inr m \<Rightarrow>
                         Inr \<lparr> testPeriod = teS, loc_X = X, loc_y = y,
                               loc_XX = XX', loc_yy = yy', loc_model = m \<rparr>))))"

text \<open>
  \<open>runModel\<close>: the exception raised, if any, the object as the call leaves it, and the
  log of the test loop.
\<close>

definition runModel ::
  "('d, 't, 'm) collab \<Rightarrow> ('t, 'm) backtest \<Rightarrow> 'd
     \<Rightarrow> error option \<times> ('t, 'm) backtest \<times> ('t, 'm) event list" where
  "runModel env s d =
     (case resolve env s d of
        Inl e \<Rightarrow> (Some e, s, [])
      | Inr ((trS, trE, teS, teE), row) \<Rightarrow>
          (let s0 = s\<lparr>dates := dates s @ [row]\<rparr>
           in case initialTraining env s0 d trS trE teS of
                Inl e \<Rightarrow> (Some e, s0, [])
              | Inr L0 \<Rightarrow>
                  (case testLoop env d teE L0 s0 of
                     (Some e, L, s1, evs) \<Rightarrow> (Some e, s1, evs)
                   | (None, L, s1, evs) \<Rightarrow>
                       (None,
                        s1\<lparr>XX := Some (loc_XX L), yy := Some (loc_yy L), model := Some (loc_model L)\<rparr>,
                        evs))))"

fun raisedBy :: "error option \<times> 's \<times> 'l \<Rightarrow> error option" where
  "raisedBy (r, s, evs) = r"

fun objectAfter :: "error option \<times> 's \<times> 'l \<Rightarrow> 's" where
  "objectAfter (r, s, evs) = s"

fun logOf :: "error option \<times> 's \<times> 'l \<Rightarrow> 'l" where
  "logOf (r, s, evs) = evs"

subsection \<open>Visualisation (lines 218--247)\<close>

datatype effect = Print string | SaveFig string

text \<open>
  The result is the exception raised, if any, what was printed and saved, and the object
  (line 229 refits the retained classifier). \<open>mesh\<close> stands for lines 230--239 (the
  grid, the figure and the decision function), \<open>draw\<close> for lines 242--246. After the
  two guards the three retained values are present; the last case of the model cannot
  occur.
\<close>

definition visualizeModel ::
  "('d, 't, 'm) collab \<Rightarrow> real \<Rightarrow> real \<Rightarrow> real \<Rightarrow> ('t, 'm) backtest
     \<Rightarrow> error option \<times> effect list \<times> ('t, 'm) backtest" where
  "visualizeModel env width height stepsize s =
     (if length (variables s) \<noteq> 2 then
        (None, [Print ''Error: Plotting is restricted to 2 dimensions''], s)
      else if XX s = None \<or> yy s = None \<or> model s = None then
        (None, [Print ''Error: Please run model before visualizing''], s)
      else
        (case (XX s, yy s, model s) of
           (Some X0, Some y, Some m0) \<Rightarrow>
             (case standardize env X0 of
                Inl e \<Rightarrow> (Some e, [], s)
              | Inr X \<Rightarrow>
                  (case fit env m0 X y of
                     Inl e \<Rightarrow> (Some e, [], s)
                   | Inr m \<Rightarrow>
                       (let s1 = s\<lparr>model := Some m\<rparr>
                        in case mesh env m X width height stepsize of
                             Some e \<Rightarrow> (Some e, [], s1)
                           | None \<Rightarrow>
                               (if stocks s1 = [] then (Some IndexError, [], s1)
                                else
                                  (let stock = last (stocks s1)
                                   in case draw env m X y stock of
                                        Some e \<Rightarrow> (Some e, [], s1)
                                      | None \<Rightarrow>
                                          (case savefig env (stock @ ''.png'') of
                                             Some e \<Rightarrow> (Some e, [], s1)
                                           | None \<Rightarrow> (None, [SaveFig (stock @ ''.png'')], s1)))))))
         | _ \<Rightarrow> (None, [], s)))"

subsection \<open>The states an object can be in\<close>

text \<open>
  An object is constructed, its caller appends the symbol to \<open>stocks\<close> (no code of this
  file does), and \<open>runModel\<close> is called; a call that raises leaves the object as it
  stood, and the object can be used again. Every state the log of a call shows, and the
  state the call leaves, are states of the object.
\<close>

inductive reachable :: "('d, 't, 'm) collab \<Rightarrow> ('t, 'm) backtest \<Rightarrow> bool"
  for env :: "('d, 't, 'm) collab" where
  constructed:
    "Backtest_init (tz :: string \<Rightarrow> error + 't) vars trS trE teS teE buyT sellT c g ct = Inr s
       \<Longrightarrow> reachable env s"
| stock_set:
    "reachable env s \<Longrightarrow> reachable env (s\<lparr>stocks := st\<rparr>)"
| after_run:
    "reachable env s \<Longrightarrow> runModel env s d = (r, s', evs) \<Longrightarrow> reachable env s'"
| during_run:
    "reachable env s \<Longrightarrow> runModel env s d = (r, s', evs) \<Longrightarrow> ev \<in> set evs
       \<Longrightarrow> reachable env (stateOf ev)"

section \<open>The specification's vocabulary\<close>

text \<open>
  The definitions of this section follow the words of the specification, not the code;
  the theorems compare them with the definitions above.
\<close>

datatype decision = Buy | Sell | Hold

text \<open>The source codes the decision as the integer \<open>prediction\<close>: 1, -1 or 0.\<close>

definition decisionOf :: "int \<Rightarrow> decision" where
  "decisionOf prediction = (if prediction = 1 then Buy else if prediction = - 1 then Sell else Hold)"

text \<open>Specification, 4.4 step 3c: buy is checked first.\<close>

definition decision_rule :: "real \<Rightarrow> real \<Rightarrow> real \<Rightarrow> real \<Rightarrow> decision" where
  "decision_rule buyT sellT pUp pDown =
     (if pUp \<ge> buyT then Buy else if pDown \<ge> sellT then Sell else Hold)"

text \<open>Specification, 4.5: the accuracy as a formula of the counters.\<close>

definition accuracy_spec :: "int \<Rightarrow> int \<Rightarrow> real" where
  "accuracy_spec correct tot = (if tot = 0 then 0 else round2 (100 * of_int correct / of_int tot))"

text \<open>
  The accuracy as the code computes it: the quotient is rounded to a double before it is
  multiplied by 100, and the product again before it is rounded to hundredths.
\<close>

definition accuracy_float :: "int \<Rightarrow> int \<Rightarrow> real" where
  "accuracy_float correct tot =
     (if tot = 0 then 0
      else double (round2 (double (double (of_int correct / of_int tot) * 100))))"

text \<open>The cursors at which the log shows a decision, and those at which it shows an outcome.\<close>

fun decidedAt :: "('t, 'm) event list \<Rightarrow> int list" where
  "decidedAt [] = []"
| "decidedAt (Decided t neg pos p s # evs) = t # decidedAt evs"
| "decidedAt (Judged t perf s # evs) = decidedAt evs"

fun judgedAt :: "('t, 'm) event list \<Rightarrow> int list" where
  "judgedAt [] = []"
| "judgedAt (Decided t neg pos p s # evs) = judgedAt evs"
| "judgedAt (Judged t perf s # evs) = t # judgedAt evs"

text \<open>
  Specification, 4.4 steps 3a--3f as a property of a log that starts at cursor \<open>t\<close>: every
  decision is taken at the current cursor, below \<open>tEnd\<close>; its outcome is the percent
  change at the next index; the next decision is taken one index later. A log may stop
  after a decision, when the outcome could not be computed.
\<close>

fun schedule :: "('d, 't, 'm) collab \<Rightarrow> 'd \<Rightarrow> int \<Rightarrow> int \<Rightarrow> ('t, 'm) event list \<Rightarrow> bool" where
  "schedule env d t tEnd [] = True"
| "schedule env d t tEnd [Decided c neg pos p s] = (c = t \<and> t < tEnd)"
| "schedule env d t tEnd (Decided c neg pos p s # Judged c' perf s' # evs) =
     (c = t \<and> t < tEnd \<and> c' = t + 1 \<and> PercentChange env d (t + 1) = Inr perf
      \<and> schedule env d (t + 1) tEnd evs)"
| "schedule env d t tEnd evs = False"

text \<open>The feature vector and the label the training set holds for an index, on a run that did not raise.\<close>

definition featuresAt :: "('d, 't, 'm) collab \<Rightarrow> 'd \<Rightarrow> string list \<Rightarrow> int \<Rightarrow> real list" where
  "featuresAt env d vars i = (case conditions env d i vars of Inl e \<Rightarrow> [] | Inr Xs \<Rightarrow> Xs)"

definition labelAt :: "('d, 't, 'm) collab \<Rightarrow> 'd \<Rightarrow> int \<Rightarrow> int" where
  "labelAt env d i = (case PercentChange env d i of Inl e \<Rightarrow> 0 | Inr v \<Rightarrow> (if v > 0 then 1 else 0))"

text \<open>An object with the same configuration and the statistics of a new one.\<close>

definition resetStats :: "('t, 'm) backtest \<Rightarrow> ('t, 'm) backtest" where
  "resetStats s = s\<lparr>dates := [], totalBuys := 0, correctBuys := 0, totalSells := 0, correctSells := 0\<rparr>"

text \<open>The object without its four counters: what a run reads but never writes in the test loop.\<close>

definition setupOf :: "('t, 'm) backtest \<Rightarrow> ('t, 'm) backtest" where
  "setupOf s = s\<lparr>totalBuys := 0, correctBuys := 0, totalSells := 0, correctSells := 0\<rparr>"

text \<open>The counters as C10 wants them.\<close>

definition counters_ok :: "('t, 'm) backtest \<Rightarrow> bool" where
  "counters_ok s = (0 \<le> correctBuys s \<and> correctBuys s \<le> totalBuys s
                  \<and> 0 \<le> correctSells s \<and> correctSells s \<le> totalSells s)"

text \<open>The object with given amounts added to its four counters.\<close>

definition addStats :: "int \<Rightarrow> int \<Rightarrow> int \<Rightarrow> int \<Rightarrow> ('t, 'm) backtest \<Rightarrow> ('t, 'm) backtest" where
  "addStats a b c e s =
     s\<lparr>totalBuys := totalBuys s + a, correctBuys := correctBuys s + b,
       totalSells := totalSells s + c, correctSells := correctSells s + e\<rparr>"

text \<open>The attributes the test loop reads and never writes.\<close>

definition loopInputs :: "('t, 'm) backtest \<Rightarrow> string list \<times> real \<times> real \<times> bool" where
  "loopInputs s = (variables s, buyThreshold s, sellThreshold s, continuedTraining s)"

section \<open>A concrete market\<close>

text \<open>
  Closing prices as the data, indices as instants, and a classifier that answers with
  the share of up-moves in its training labels and rejects a one-class training set.
\<close>

definition ex_change :: "real list \<Rightarrow> int \<Rightarrow> error + real" where
  "ex_change d i =
     (if 1 \<le> i \<and> i < int (length d) then Inr (d ! nat i - d ! nat (i - 1)) else Inl IndexError)"

definition ex_fit :: "real \<Rightarrow> real list list \<Rightarrow> int list \<Rightarrow> error + real" where
  "ex_fit m X y =
     (if sum_list y = 0 \<or> sum_list y = int (length y) then Inl ValueError
      else Inr (of_int (sum_list y) / of_int (int (length y))))"

definition ex_env :: "(real list, int, real) collab" where
  "ex_env =
     \<lparr> DateIndex = (\<lambda>d t up stock. if 0 \<le> t \<and> t < int (length d) then Inr t else Inl IndexError),
       dateStr = (\<lambda>d i. Inr ''01/02/2020''),
       FindConditions = (\<lambda>d i var. ex_change d i),
       PercentChange = ex_change,
       SVC = (\<lambda>c g. 0),
       fit = ex_fit,
       Predict = (\<lambda>m Xs. Inr (1 - m, m)),
       standardize = Inr,
       mesh = (\<lambda>m X w h st. None),
       draw = (\<lambda>m X y stock. None),
       savefig = (\<lambda>name. None) \<rparr>"

definition ex_data :: "real list" where
  "ex_data = [10, 11, 12, 11, 12, 13, 12, 12, 14]"

definition ex_tz :: "string \<Rightarrow> error + int" where
  "ex_tz x = (if x = ''1'' then Inr 1 else if x = ''3'' then Inr 3 else if x = ''4'' then Inr 4
              else if x = ''7'' then Inr 7 else Inl ValueError)"

definition ex_new :: "real \<Rightarrow> real \<Rightarrow> bool \<Rightarrow> error + (int, real) backtest" where
  "ex_new buyT sellT ct = Backtest_init ex_tz [''Close''] ''1'' ''3'' ''4'' ''7'' buyT sellT 1 10 ct"

definition ex_bt :: "real \<Rightarrow> real \<Rightarrow> bool \<Rightarrow> (int, real) backtest" where
  "ex_bt buyT sellT ct =
     \<lparr> variables = [''Close''], trainStart = 1, trainEnd = 3, testStart = 4, testEnd = 7,
       buyThreshold = buyT, sellThreshold = sellT, C = 1, gamma = 10,
       continuedTraining = ct,
       stocks = [''TSLA''], dates = [],
       totalBuys = 0, correctBuys = 0, totalSells = 0, correctSells = 0,
       XX = None, yy = None, model = None \<rparr>"

text \<open>A run with continued training and both thresholds at one half.\<close>

definition ex_run :: "error option \<times> (int, real) backtest \<times> (int, real) event list" where
  "ex_run = runModel ex_env (ex_bt (1/2) (1/2) True) ex_data"

section \<open>Basic facts\<close>

subsection \<open>The loop, one pass at a time\<close>

lemma retrain_cursor: "retrain env s Xs perf L = Inr L' \<Longrightarrow> testPeriod L' = testPeriod L"
  by (auto simp: retrain_def Let_def split: if_splits sum.splits)

lemma period_cursor:
  "period env d L s = (None, L', s', evs) \<Longrightarrow> testPeriod L' = testPeriod L + 1"
  by (auto simp: period_def Let_def split: sum.splits prod.splits dest: retrain_cursor)

lemma testLoop_stop:
  "\<not> testPeriod L < tEnd \<Longrightarrow> testLoop env d tEnd L s = (None, L, s, [])"
  by (simp add: testLoop.simps)

lemma testLoop_fail:
  "testPeriod L < tEnd \<Longrightarrow> period env d L s = (Some e, L', s', evs)
     \<Longrightarrow> testLoop env d tEnd L s = (Some e, L', s', evs)"
  by (simp add: testLoop.simps)

lemma testLoop_step:
  "testPeriod L < tEnd \<Longrightarrow> period env d L s = (None, L', s', evs)
     \<Longrightarrow> testLoop env d tEnd L s =
         (case testLoop env d tEnd L' s' of (r, L'', s'', evs') \<Rightarrow> (r, L'', s'', evs @ evs'))"
  by (simp add: testLoop.simps)

text \<open>Induction along the passes of the loop: the distance to \<open>tEnd\<close> shrinks.\<close>

lemma testLoop_cases:
  assumes stop: "\<And>L s. \<not> testPeriod L < tEnd \<Longrightarrow> P L s"
    and fail: "\<And>L s e L' s' evs.
                 testPeriod L < tEnd \<Longrightarrow> period env d L s = (Some e, L', s', evs) \<Longrightarrow> P L s"
    and step: "\<And>L s L' s' evs.
                 testPeriod L < tEnd \<Longrightarrow> period env d L s = (None, L', s', evs)
                   \<Longrightarrow> P L' s' \<Longrightarrow> P L s"
  shows "P L s"
proof (induction "nat (tEnd - testPeriod L)" arbitrary: L s rule: less_induct)
  case (less L s)
  show ?case
  proof (cases "testPeriod L < tEnd")
    case False
    then show ?thesis by (rule stop)
  next
    case True
    obtain r L' s' evs where p: "period env d L s = (r, L', s', evs)"
      by (cases "period env d L s") auto
    show ?thesis
    proof (cases r)
      case None
      with p have p': "period env d L s = (None, L', s', evs)" by simp
      from period_cursor [OF p'] True
      have "nat (tEnd - testPeriod L') < nat (tEnd - testPeriod L)" by simp
      then have "P L' s'" by (rule less.hyps)
      with True p' show ?thesis by (rule step)
    next
      case (Some e)
      with p True show ?thesis by (auto intro: fail)
    qed
  qed
qed

subsection \<open>What one pass does\<close>

lemma period_shape:
  assumes "period env d L s = (r, L', s', evs)"
  obtains
    (early) e where "r = Some e" "evs = []" "s' = s"
  | (decided) e Xs neg pos where
      "r = Some e"
      "conditions env d (testPeriod L) (variables s) = Inr Xs"
      "Predict env (loc_model L) Xs = Inr (neg, pos)"
      "PercentChange env d (testPeriod L + 1) = Inl e"
      "evs = [Decided (testPeriod L) neg pos (decide s neg pos) (tally (decide s neg pos) s)]"
      "s' = tally (decide s neg pos) s"
  | (judged) Xs neg pos perf where
      "conditions env d (testPeriod L) (variables s) = Inr Xs"
      "Predict env (loc_model L) Xs = Inr (neg, pos)"
      "PercentChange env d (testPeriod L + 1) = Inr perf"
      "evs = [Decided (testPeriod L) neg pos (decide s neg pos) (tally (decide s neg pos) s),
              Judged (testPeriod L + 1) perf (judge (decide s neg pos) perf (tally (decide s neg pos) s))]"
      "s' = judge (decide s neg pos) perf (tally (decide s neg pos) s)"
      "case r of
         None \<Rightarrow> retrain env s' Xs perf (L\<lparr>testPeriod := testPeriod L + 1\<rparr>) = Inr L'
       | Some e \<Rightarrow> retrain env s' Xs perf (L\<lparr>testPeriod := testPeriod L + 1\<rparr>) = Inl e"
proof (cases "conditions env d (testPeriod L) (variables s)")
  case (Inl e)
  with assms show ?thesis by (intro early [of e]) (auto simp: period_def)
next
  case (Inr Xs)
  note c = this
  show ?thesis
  proof (cases "Predict env (loc_model L) Xs")
    case (Inl e)
    with assms c show ?thesis by (intro early [of e]) (auto simp: period_def)
  next
    case (Inr np)
    obtain neg pos where np: "np = (neg, pos)" by (cases np)
    with Inr have p: "Predict env (loc_model L) Xs = Inr (neg, pos)" by simp
    show ?thesis
    proof (cases "PercentChange env d (testPeriod L + 1)")
      case (Inl e)
      with assms c p show ?thesis
        by (intro decided [of e Xs neg pos]) (auto simp: period_def Let_def)
    next
      case (Inr perf)
      note pc = this
      let ?s2 = "judge (decide s neg pos) perf (tally (decide s neg pos) s)"
      show ?thesis
      proof (cases "retrain env ?s2 Xs perf (L\<lparr>testPeriod := testPeriod L + 1\<rparr>)")
        case (Inl e)
        with assms c p pc show ?thesis
          by (intro judged [of Xs neg pos perf]) (auto simp: period_def Let_def)
      next
        case (Inr L2)
        with assms c p pc show ?thesis
          by (intro judged [of Xs neg pos perf]) (auto simp: period_def Let_def)
      qed
    qed
  qed
qed

lemma setupOf_tally [simp]: "setupOf (tally p s) = setupOf s"
  by (simp add: tally_def setupOf_def)

lemma setupOf_judge [simp]: "setupOf (judge p perf s) = setupOf s"
  by (simp add: judge_def setupOf_def)

lemma setupOf_fields:
  "variables (setupOf s) = variables s"
  "buyThreshold (setupOf s) = buyThreshold s"
  "sellThreshold (setupOf s) = sellThreshold s"
  "continuedTraining (setupOf s) = continuedTraining s"
  "C (setupOf s) = C s"
  "gamma (setupOf s) = gamma s"
  "stocks (setupOf s) = stocks s"
  "dates (setupOf s) = dates s"
  "XX (setupOf s) = XX s"
  "yy (setupOf s) = yy s"
  "model (setupOf s) = model s"
  by (simp_all add: setupOf_def)

lemma same_setup:
  assumes "setupOf s' = setupOf s"
  shows "variables s' = variables s" "buyThreshold s' = buyThreshold s"
    "sellThreshold s' = sellThreshold s" "continuedTraining s' = continuedTraining s"
    "C s' = C s" "gamma s' = gamma s" "stocks s' = stocks s" "dates s' = dates s"
    "XX s' = XX s" "yy s' = yy s" "model s' = model s"
  using assms setupOf_fields [of s] setupOf_fields [of s'] by simp_all

lemma period_setup: "period env d L s = (r, L', s', evs) \<Longrightarrow> setupOf s' = setupOf s"
  by (erule period_shape) simp_all

lemma period_log_setup:
  "period env d L s = (r, L', s', evs) \<Longrightarrow> ev \<in> set evs \<Longrightarrow> setupOf (stateOf ev) = setupOf s"
  by (erule period_shape) auto

subsection \<open>What the loop does\<close>

lemma testLoop_stepE:
  assumes "testPeriod L < tEnd" "period env d L s = (None, L1, s1, evs1)"
    and "testLoop env d tEnd L s = (r, L', s', evs)"
  obtains evs' where "testLoop env d tEnd L1 s1 = (r, L', s', evs')" "evs = evs1 @ evs'"
  using assms by (auto simp: testLoop_step split: prod.splits)

lemma testLoop_setup:
  "testLoop env d tEnd L s = (r, L', s', evs) \<Longrightarrow>
     setupOf s' = setupOf s \<and> (\<forall>ev \<in> set evs. setupOf (stateOf ev) = setupOf s)"
proof (induction L s arbitrary: r L' s' evs rule: testLoop_cases [where tEnd = tEnd and env = env and d = d])
  case (1 L s)
  then show ?case by (simp add: testLoop_stop)
next
  case (2 L s e L1 s1 evs1)
  then have p: "period env d L s = (r, L', s', evs)" by (simp add: testLoop_fail)
  from period_setup [OF p] period_log_setup [OF p] show ?case by blast
next
  case (3 L s L1 s1 evs1)
  from "3.prems" obtain evs' where t: "testLoop env d tEnd L1 s1 = (r, L', s', evs')"
    and e: "evs = evs1 @ evs'"
    by (rule testLoop_stepE [OF "3.hyps"(1,2)])
  have su: "setupOf s1 = setupOf s" by (rule period_setup [OF "3.hyps"(2)])
  have "setupOf (stateOf ev) = setupOf s" if "ev \<in> set evs" for ev
  proof (cases "ev \<in> set evs1")
    case True
    then show ?thesis by (rule period_log_setup [OF "3.hyps"(2)])
  next
    case False
    with that e have "ev \<in> set evs'" by simp
    with "3.IH" [OF t] su show ?thesis by simp
  qed
  with "3.IH" [OF t] su show ?case by simp
qed

lemma decide_setup:
  assumes "setupOf s' = setupOf s"
  shows "decide s' neg pos = decide s neg pos"
  by (simp add: decide_def same_setup(2,3) [OF assms])

lemma period_decisions:
  assumes "period env d L s = (r, L', s', evs)" "Decided t neg pos p s1 \<in> set evs"
  shows "p = decide s neg pos \<and> t = testPeriod L
     \<and> (\<exists>Xs. conditions env d t (variables s) = Inr Xs \<and> Predict env (loc_model L) Xs = Inr (neg, pos))"
  using assms by (elim period_shape) auto

lemma testLoop_decisions:
  "testLoop env d tEnd L s = (r, L', s', evs) \<Longrightarrow> Decided t neg pos p s1 \<in> set evs \<Longrightarrow>
     p = decide s neg pos
     \<and> (\<exists>Xs m. conditions env d t (variables s) = Inr Xs \<and> Predict env m Xs = Inr (neg, pos))"
proof (induction L s arbitrary: r L' s' evs rule: testLoop_cases [where tEnd = tEnd and env = env and d = d])
  case (1 L s)
  then show ?case by (simp add: testLoop_stop)
next
  case (2 L s e L1 s1' evs1)
  then have "period env d L s = (r, L', s', evs)" by (simp add: testLoop_fail)
  from period_decisions [OF this "2.prems"(2)] show ?case by blast
next
  case (3 L s L1 s1' evs1)
  from "3.prems"(1) obtain evs' where t: "testLoop env d tEnd L1 s1' = (r, L', s', evs')"
    and e: "evs = evs1 @ evs'"
    by (rule testLoop_stepE [OF "3.hyps"(1,2)])
  from "3.prems"(2) e consider "Decided t neg pos p s1 \<in> set evs1" | "Decided t neg pos p s1 \<in> set evs'"
    by auto
  then show ?case
  proof cases
    case 1
    from period_decisions [OF "3.hyps"(2) this] show ?thesis by blast
  next
    case 2
    have su: "setupOf s1' = setupOf s" by (rule period_setup [OF "3.hyps"(2)])
    from "3.IH" [OF t 2] show ?thesis
      by (simp add: decide_setup [OF su] same_setup(1) [OF su])
  qed
qed

lemma testLoop_schedule:
  "testLoop env d tEnd L s = (r, L', s', evs) \<Longrightarrow>
     schedule env d (testPeriod L) tEnd evs
     \<and> (r = None \<longrightarrow> decidedAt evs = [testPeriod L..tEnd - 1] \<and> judgedAt evs = [testPeriod L + 1..tEnd])"
proof (induction L s arbitrary: r L' s' evs rule: testLoop_cases [where tEnd = tEnd and env = env and d = d])
  case (1 L s)
  then show ?case by (simp add: testLoop_stop)
next
  case (2 L s e L1 s1 evs1)
  then have p: "period env d L s = (r, L', s', evs)" and r: "r = Some e" by (simp_all add: testLoop_fail)
  from p "2.hyps"(1) r show ?case by (elim period_shape) auto
next
  case (3 L s L1 s1 evs1)
  from "3.prems"(1) obtain evs' where t: "testLoop env d tEnd L1 s1 = (r, L', s', evs')"
    and e: "evs = evs1 @ evs'"
    by (rule testLoop_stepE [OF "3.hyps"(1,2)])
  have c: "testPeriod L1 = testPeriod L + 1" by (rule period_cursor [OF "3.hyps"(2)])
  have u1: "[testPeriod L..tEnd - 1] = testPeriod L # [testPeriod L + 1..tEnd - 1]"
    using "3.hyps"(1) by (simp add: upto_rec1)
  have u2: "[testPeriod L + 1..tEnd] = (testPeriod L + 1) # [testPeriod L + 1 + 1..tEnd]"
    using "3.hyps"(1) by (simp add: upto_rec1)
  from "3.hyps"(2) show ?case
  proof (cases rule: period_shape)
    case (judged Xs neg pos perf)
    with "3.IH" [OF t] e c "3.hyps"(1) u1 u2 show ?thesis by simp
  qed simp_all
qed

lemma testLoop_judged:
  "testLoop env d tEnd L s = (r, L', s', evs) \<Longrightarrow>
     evs = pre @ Decided t neg pos p s1 # Judged t' perf s2 # post \<Longrightarrow> s2 = judge p perf s1"
proof (induction L s arbitrary: r L' s' evs pre rule: testLoop_cases [where tEnd = tEnd and env = env and d = d])
  case (1 L s)
  then show ?case by (simp add: testLoop_stop)
next
  case (2 L s e L1 s1' evs1)
  then have p: "period env d L s = (r, L', s', evs)" by (simp add: testLoop_fail)
  from p "2.prems"(2) show ?case
    by (elim period_shape) (auto simp: Cons_eq_append_conv append_eq_Cons_conv)
next
  case (3 L s L1 s1' evs1)
  from "3.prems"(1) obtain evs' where t: "testLoop env d tEnd L1 s1' = (r, L', s', evs')"
    and e: "evs = evs1 @ evs'"
    by (rule testLoop_stepE [OF "3.hyps"(1,2)])
  from "3.hyps"(2) show ?case
  proof (cases rule: period_shape)
    case (judged Xs neg' pos' perf')
    show ?thesis
    proof (cases pre)
      case Nil
      with judged e "3.prems"(2) show ?thesis by simp
    next
      case (Cons a pre1)
      note c1 = this
      show ?thesis
      proof (cases pre1)
        case Nil
        with c1 judged e "3.prems"(2) show ?thesis by simp
      next
        case (Cons b pre2)
        with c1 judged e "3.prems"(2)
        have "evs' = pre2 @ Decided t neg pos p s1 # Judged t' perf s2 # post" by simp
        from "3.IH" [OF t this] show ?thesis .
      qed
    qed
  qed simp_all
qed

subsection \<open>What a run does\<close>

lemma initialTraining_cursor:
  "initialTraining env s d trS trE teS = Inr L0 \<Longrightarrow> testPeriod L0 = teS"
  by (auto simp: initialTraining_def split: sum.splits prod.splits)

lemma runModel_shape:
  assumes "runModel env s d = (r, s', evs)"
  obtains
    (unresolved) e where "resolve env s d = Inl e" "r = Some e" "s' = s" "evs = []"
  | (untrained) trS trE teS teE row e where
      "resolve env s d = Inr ((trS, trE, teS, teE), row)"
      "initialTraining env (s\<lparr>dates := dates s @ [row]\<rparr>) d trS trE teS = Inl e"
      "r = Some e" "s' = s\<lparr>dates := dates s @ [row]\<rparr>" "evs = []"
  | (tested) trS trE teS teE row L0 L s1 where
      "resolve env s d = Inr ((trS, trE, teS, teE), row)"
      "initialTraining env (s\<lparr>dates := dates s @ [row]\<rparr>) d trS trE teS = Inr L0"
      "testLoop env d teE L0 (s\<lparr>dates := dates s @ [row]\<rparr>) = (r, L, s1, evs)"
      "s' = (case r of
               Some e \<Rightarrow> s1
             | None \<Rightarrow> s1\<lparr>XX := Some (loc_XX L), yy := Some (loc_yy L), model := Some (loc_model L)\<rparr>)"
proof (cases "resolve env s d")
  case (Inl e)
  with assms show ?thesis by (intro unresolved [of e]) (auto simp: runModel_def)
next
  case (Inr w)
  obtain trS trE teS teE row where w: "w = ((trS, trE, teS, teE), row)"
    by (cases w) auto
  with Inr have res: "resolve env s d = Inr ((trS, trE, teS, teE), row)" by simp
  let ?sd = "s\<lparr>dates := dates s @ [row]\<rparr>"
  show ?thesis
  proof (cases "initialTraining env ?sd d trS trE teS")
    case (Inl e)
    with assms res show ?thesis
      by (intro untrained [of trS trE teS teE row e]) (auto simp: runModel_def Let_def)
  next
    case (Inr L0)
    obtain r1 L s1 evs1 where t: "testLoop env d teE L0 ?sd = (r1, L, s1, evs1)"
      by (cases "testLoop env d teE L0 ?sd") auto
    with assms res Inr show ?thesis
      by (intro tested [of trS trE teS teE row L0 L s1])
         (auto simp: runModel_def Let_def split: option.splits)
  qed
qed

lemma decisionOf_decide:
  "decisionOf (decide s neg pos) = decision_rule (buyThreshold s) (sellThreshold s) pos neg"
  by (simp add: decisionOf_def decide_def decision_rule_def)

lemma judge_counts:
  "correctBuys (judge p perf s) = correctBuys s + (if decisionOf p = Buy \<and> 0 < perf then 1 else 0)"
  "correctSells (judge p perf s) = correctSells s + (if decisionOf p = Sell \<and> perf < 0 then 1 else 0)"
  "totalBuys (judge p perf s) = totalBuys s"
  "totalSells (judge p perf s) = totalSells s"
  by (auto simp: judge_def decisionOf_def)

subsection \<open>The counters stay ordered\<close>

lemma tally_counts:
  "totalBuys (tally p s) = totalBuys s + (if p = 1 then 1 else 0)"
  "totalSells (tally p s) = totalSells s + (if p = 1 then 0 else if p = - 1 then 1 else 0)"
  "correctBuys (tally p s) = correctBuys s"
  "correctSells (tally p s) = correctSells s"
  by (simp_all add: tally_def)

lemma judge_counts_raw:
  "correctBuys (judge p perf s) = correctBuys s + (if p = 1 \<and> 0 < perf then 1 else 0)"
  "correctSells (judge p perf s) = correctSells s + (if p = - 1 \<and> perf < 0 then 1 else 0)"
  by (auto simp: judge_def)

text \<open>In one pass a correct counter grows by at most what its total grew by.\<close>

lemma period_increments:
  assumes "period env d L s = (r, L', s', evs)"
  shows "0 \<le> correctBuys s' - correctBuys s
       \<and> correctBuys s' - correctBuys s \<le> totalBuys s' - totalBuys s
       \<and> totalBuys s' - totalBuys s \<le> 1
       \<and> 0 \<le> correctSells s' - correctSells s
       \<and> correctSells s' - correctSells s \<le> totalSells s' - totalSells s
       \<and> totalSells s' - totalSells s \<le> 1"
  using assms
  by (elim period_shape) (simp_all add: tally_counts judge_counts_raw judge_counts(3,4))

lemma counters_ok_tally: "counters_ok s \<Longrightarrow> counters_ok (tally p s)"
  by (simp add: counters_ok_def tally_counts)

lemma counters_ok_judge_tally: "counters_ok s \<Longrightarrow> counters_ok (judge p perf (tally p s))"
  by (simp add: counters_ok_def tally_counts judge_counts_raw judge_counts(3,4))

lemma period_counters_ok:
  assumes "period env d L s = (r, L', s', evs)" "counters_ok s"
  shows "counters_ok s' \<and> (\<forall>ev \<in> set evs. counters_ok (stateOf ev))"
  using assms
  by (elim period_shape) (simp_all add: counters_ok_tally counters_ok_judge_tally)

lemma testLoop_counters_ok:
  "testLoop env d tEnd L s = (r, L', s', evs) \<Longrightarrow> counters_ok s \<Longrightarrow>
     counters_ok s' \<and> (\<forall>ev \<in> set evs. counters_ok (stateOf ev))"
proof (induction L s arbitrary: r L' s' evs rule: testLoop_cases [where tEnd = tEnd and env = env and d = d])
  case (1 L s)
  then show ?case by (simp add: testLoop_stop)
next
  case (2 L s e L1 s1 evs1)
  then have p: "period env d L s = (r, L', s', evs)" by (simp add: testLoop_fail)
  from period_counters_ok [OF p "2.prems"(2)] show ?case .
next
  case (3 L s L1 s1 evs1)
  from "3.prems"(1) obtain evs' where t: "testLoop env d tEnd L1 s1 = (r, L', s', evs')"
    and e: "evs = evs1 @ evs'"
    by (rule testLoop_stepE [OF "3.hyps"(1,2)])
  from period_counters_ok [OF "3.hyps"(2) "3.prems"(2)]
  have ok1: "counters_ok s1" and evs1: "\<forall>ev \<in> set evs1. counters_ok (stateOf ev)" by simp_all
  from "3.IH" [OF t ok1] evs1 e show ?case by auto
qed

lemma runModel_counters_ok:
  assumes "runModel env s d = (r, s', evs)" "counters_ok s"
  shows "counters_ok s' \<and> (\<forall>ev \<in> set evs. counters_ok (stateOf ev))"
  using assms(1)
proof (cases rule: runModel_shape)
  case (unresolved e)
  with assms(2) show ?thesis by simp
next
  case (untrained trS trE teS teE row e)
  with assms(2) show ?thesis by (simp add: counters_ok_def)
next
  case (tested trS trE teS teE row L0 L s1)
  from assms(2) have "counters_ok (s\<lparr>dates := dates s @ [row]\<rparr>)" by (simp add: counters_ok_def)
  from testLoop_counters_ok [OF tested(3) this]
  have ok1: "counters_ok s1" and evs: "\<forall>ev \<in> set evs. counters_ok (stateOf ev)" by simp_all
  from ok1 tested(4) have "counters_ok s'" by (cases r) (simp_all add: counters_ok_def)
  with evs show ?thesis by simp
qed

lemma reachable_counters_ok: "reachable env s \<Longrightarrow> counters_ok s"
proof (induction rule: reachable.induct)
  case (constructed tz vars trS trE teS teE buyT sellT c g ct s)
  then show ?case by (auto simp: Backtest_init_def counters_ok_def split: sum.splits)
next
  case (stock_set s st)
  then show ?case by (simp add: counters_ok_def)
next
  case (after_run s d r s' evs)
  from runModel_counters_ok [OF after_run(2) after_run.IH] show ?case by simp
next
  case (during_run s d r s' evs ev)
  from runModel_counters_ok [OF during_run(2) during_run.IH] during_run(3) show ?case by simp
qed

subsection \<open>Runs on objects that differ in their statistics\<close>

lemma addStats_zero [simp]: "addStats 0 0 0 0 s = s"
  by (simp add: addStats_def)

lemma addStats_addStats:
  "addStats a b c e (addStats a' b' c' e' s) = addStats (a' + a) (b' + b) (c' + c) (e' + e) s"
  by (simp add: addStats_def add.assoc)

lemma loopInputs_addStats [simp]: "loopInputs (addStats a b c e s) = loopInputs s"
  by (simp add: loopInputs_def addStats_def)

lemma tally_addStats:
  "tally p s = addStats (if p = 1 then 1 else 0) 0 (if p = 1 then 0 else if p = - 1 then 1 else 0) 0 s"
  by (simp add: tally_def addStats_def)

lemma judge_addStats:
  "judge p perf s =
     addStats 0 (if p = 1 \<and> 0 < perf then 1 else 0) 0 (if p = - 1 \<and> perf < 0 then 1 else 0) s"
  by (auto simp: judge_def addStats_def)

lemma decide_inputs: "loopInputs u = loopInputs s \<Longrightarrow> decide u neg pos = decide s neg pos"
  by (simp add: loopInputs_def decide_def)

lemma retrain_inputs: "loopInputs u = loopInputs s \<Longrightarrow> retrain env u Xs perf L = retrain env s Xs perf L"
  by (simp add: loopInputs_def retrain_def)

text \<open>
  What a pass adds to the counters, what it raises and how it leaves the locals depend on
  the object only through the four attributes the loop reads.
\<close>

lemma period_addStats:
  assumes in_eq: "loopInputs u = loopInputs s"
    and p: "period env d L s = (r, L', s', evs)"
  shows "\<exists>a b c e evs'. s' = addStats a b c e s
           \<and> period env d L u = (r, L', addStats a b c e u, evs')
           \<and> 0 \<le> b \<and> b \<le> a \<and> 0 \<le> e \<and> e \<le> c"
proof -
  have vars: "variables u = variables s" using in_eq by (simp add: loopInputs_def)
  show ?thesis
  proof (cases "conditions env d (testPeriod L) (variables s)")
    case (Inl x)
    with p vars have "s' = addStats 0 0 0 0 s" "period env d L u = (r, L', addStats 0 0 0 0 u, [])"
      by (auto simp: period_def)
    then show ?thesis by (intro exI [of _ 0]) simp
  next
    case (Inr Xs)
    note c = this
    show ?thesis
    proof (cases "Predict env (loc_model L) Xs")
      case (Inl x)
      with p vars c have "s' = addStats 0 0 0 0 s" "period env d L u = (r, L', addStats 0 0 0 0 u, [])"
        by (auto simp: period_def)
      then show ?thesis by (intro exI [of _ 0]) simp
    next
      case (Inr np)
      obtain neg pos where np: "np = (neg, pos)" by (cases np)
      with Inr have pr: "Predict env (loc_model L) Xs = Inr (neg, pos)" by simp
      define q where "q = decide s neg pos"
      have qu: "decide u neg pos = q" using decide_inputs [OF in_eq] by (simp add: q_def)
      define a where "a = (if q = 1 then 1 else (0::int))"
      define c' where "c' = (if q = 1 then 0 else if q = - 1 then 1 else (0::int))"
      have ts: "tally q s = addStats a 0 c' 0 s" and tu: "tally q u = addStats a 0 c' 0 u"
        by (simp_all add: tally_addStats a_def c'_def)
      show ?thesis
      proof (cases "PercentChange env d (testPeriod L + 1)")
        case (Inl x)
        with p vars c pr qu ts tu
        have "s' = addStats a 0 c' 0 s"
          "period env d L u = (r, L', addStats a 0 c' 0 u,
              [Decided (testPeriod L) neg pos q (addStats a 0 c' 0 u)])"
          by (auto simp: period_def Let_def q_def [symmetric])
        moreover have "(0::int) \<le> a" "(0::int) \<le> c'" by (simp_all add: a_def c'_def)
        ultimately show ?thesis by blast
      next
        case (Inr perf)
        define b where "b = (if q = 1 \<and> 0 < perf then 1 else (0::int))"
        define e where "e = (if q = - 1 \<and> perf < 0 then 1 else (0::int))"
        have js: "judge q perf (addStats a 0 c' 0 s) = addStats a b c' e s"
          and ju: "judge q perf (addStats a 0 c' 0 u) = addStats a b c' e u"
          by (simp_all add: judge_addStats addStats_addStats b_def e_def)
        have li: "loopInputs (addStats a b c' e u) = loopInputs (addStats a b c' e s)"
          using in_eq by simp
        have bounds: "0 \<le> b" "b \<le> a" "0 \<le> e" "e \<le> c'"
          by (simp_all add: a_def b_def c'_def e_def)
        have ru: "retrain env (addStats a b c' e u) Xs perf (L\<lparr>testPeriod := testPeriod L + 1\<rparr>)
            = retrain env (addStats a b c' e s) Xs perf (L\<lparr>testPeriod := testPeriod L + 1\<rparr>)"
          by (rule retrain_inputs [OF li])
        show ?thesis
        proof (cases "retrain env (addStats a b c' e s) Xs perf (L\<lparr>testPeriod := testPeriod L + 1\<rparr>)")
          case (Inl x)
          from p c pr \<open>PercentChange env d (testPeriod L + 1) = Inr perf\<close> ts js Inl
          have "s' = addStats a b c' e s \<and> r = Some x \<and> L' = L\<lparr>testPeriod := testPeriod L + 1\<rparr>"
            by (auto simp: period_def Let_def q_def [symmetric])
          moreover from vars c pr \<open>PercentChange env d (testPeriod L + 1) = Inr perf\<close> qu tu ju ru Inl
          have "period env d L u =
                  (Some x, L\<lparr>testPeriod := testPeriod L + 1\<rparr>, addStats a b c' e u,
                   [Decided (testPeriod L) neg pos q (addStats a 0 c' 0 u),
                    Judged (testPeriod L + 1) perf (addStats a b c' e u)])"
            by (simp add: period_def Let_def)
          ultimately show ?thesis using bounds by blast
        next
          case (Inr L2)
          from p c pr \<open>PercentChange env d (testPeriod L + 1) = Inr perf\<close> ts js Inr
          have "s' = addStats a b c' e s \<and> r = None \<and> L' = L2"
            by (auto simp: period_def Let_def q_def [symmetric])
          moreover from vars c pr \<open>PercentChange env d (testPeriod L + 1) = Inr perf\<close> qu tu ju ru Inr
          have "period env d L u =
                  (None, L2, addStats a b c' e u,
                   [Decided (testPeriod L) neg pos q (addStats a 0 c' 0 u),
                    Judged (testPeriod L + 1) perf (addStats a b c' e u)])"
            by (simp add: period_def Let_def)
          ultimately show ?thesis using bounds by blast
        qed
      qed
    qed
  qed
qed

lemma testLoop_addStats:
  "loopInputs u = loopInputs s \<Longrightarrow> testLoop env d tEnd L s = (r, L', s', evs) \<Longrightarrow>
     \<exists>a b c e evs'. s' = addStats a b c e s
        \<and> testLoop env d tEnd L u = (r, L', addStats a b c e u, evs')
        \<and> 0 \<le> b \<and> b \<le> a \<and> 0 \<le> e \<and> e \<le> c"
proof (induction L s arbitrary: u r L' s' evs rule: testLoop_cases [where tEnd = tEnd and env = env and d = d])
  case (1 L s)
  then have "s' = addStats 0 0 0 0 s" "testLoop env d tEnd L u = (r, L', addStats 0 0 0 0 u, [])"
    by (simp_all add: testLoop_stop)
  then show ?case by (intro exI [of _ 0]) simp
next
  case (2 L s x L1 s1 evs1)
  then have p: "period env d L s = (r, L', s', evs)" and r: "r = Some x" by (simp_all add: testLoop_fail)
  from period_addStats [OF "2.prems"(1) p] obtain a b c e evs' where
    "s' = addStats a b c e s" "period env d L u = (r, L', addStats a b c e u, evs')"
    "0 \<le> b" "b \<le> a" "0 \<le> e" "e \<le> c" by blast
  with r "2.hyps"(1) show ?case by (auto simp: testLoop_fail)
next
  case (3 L s L1 s1 evs1)
  from "3.prems"(2) obtain evs2 where t: "testLoop env d tEnd L1 s1 = (r, L', s', evs2)"
    by (rule testLoop_stepE [OF "3.hyps"(1,2)])
  from period_addStats [OF "3.prems"(1) "3.hyps"(2)] obtain a b c e evsu where
    s1: "s1 = addStats a b c e s" and pu: "period env d L u = (None, L1, addStats a b c e u, evsu)"
    and b1: "0 \<le> b" "b \<le> a" "0 \<le> e" "e \<le> c" by blast
  have "loopInputs (addStats a b c e u) = loopInputs s1" using "3.prems"(1) s1 by simp
  from "3.IH" [OF this t] obtain a' b' c' e' evsu' where
    s': "s' = addStats a' b' c' e' s1"
    and tu: "testLoop env d tEnd L1 (addStats a b c e u) = (r, L', addStats a' b' c' e' (addStats a b c e u), evsu')"
    and b2: "0 \<le> b'" "b' \<le> a'" "0 \<le> e'" "e' \<le> c'" by blast
  have "s' = addStats (a + a') (b + b') (c + c') (e + e') s"
    using s' s1 by (simp add: addStats_addStats)
  moreover have "testLoop env d tEnd L u
      = (r, L', addStats (a + a') (b + b') (c + c') (e + e') u, evsu @ evsu')"
    using tu pu "3.hyps"(1) by (simp add: testLoop_step addStats_addStats)
  moreover have "0 \<le> b + b'" "b + b' \<le> a + a'" "0 \<le> e + e'" "e + e' \<le> c + c'"
    using b1 b2 by simp_all
  ultimately show ?case by blast
qed

lemma resetStats_fields:
  "variables (resetStats s) = variables s"
  "trainStart (resetStats s) = trainStart s"
  "trainEnd (resetStats s) = trainEnd s"
  "testStart (resetStats s) = testStart s"
  "testEnd (resetStats s) = testEnd s"
  "buyThreshold (resetStats s) = buyThreshold s"
  "sellThreshold (resetStats s) = sellThreshold s"
  "C (resetStats s) = C s"
  "gamma (resetStats s) = gamma s"
  "continuedTraining (resetStats s) = continuedTraining s"
  "stocks (resetStats s) = stocks s"
  "XX (resetStats s) = XX s"
  "yy (resetStats s) = yy s"
  "model (resetStats s) = model s"
  by (simp_all add: resetStats_def)

lemma same_reset:
  assumes "resetStats u = resetStats s"
  shows "variables u = variables s" "trainStart u = trainStart s" "trainEnd u = trainEnd s"
    "testStart u = testStart s" "testEnd u = testEnd s" "buyThreshold u = buyThreshold s"
    "sellThreshold u = sellThreshold s" "C u = C s" "gamma u = gamma s"
    "continuedTraining u = continuedTraining s" "stocks u = stocks s"
    "XX u = XX s" "yy u = yy s" "model u = model s"
  using assms resetStats_fields [of u] resetStats_fields [of s] by simp_all

lemma resolve_same:
  assumes "resetStats u = resetStats s"
  shows "resolve env u d = resolve env s d"
  unfolding resolve_def same_reset(2,3,4,5,11) [OF assms] by (rule refl)

lemma initialTraining_same:
  assumes "variables u = variables s" "C u = C s" "gamma u = gamma s"
  shows "initialTraining env u d trS trE teS = initialTraining env s d trS trE teS"
  unfolding initialTraining_def assms by (rule refl)

text \<open>
  Two objects that differ only in their counters and date list: a run raises the same on
  both, adds the same amounts to the counters and appends the same rows to the dates.
\<close>

lemma runModel_shift:
  assumes same: "resetStats u = resetStats s"
    and run: "runModel env s d = (r, s', evs)"
  shows "\<exists>u' evs' a b c e rows.
           runModel env u d = (r, u', evs')
         \<and> dates s' = dates s @ rows \<and> dates u' = dates u @ rows
         \<and> totalBuys s' = totalBuys s + a \<and> totalBuys u' = totalBuys u + a
         \<and> correctBuys s' = correctBuys s + b \<and> correctBuys u' = correctBuys u + b
         \<and> totalSells s' = totalSells s + c \<and> totalSells u' = totalSells u + c
         \<and> correctSells s' = correctSells s + e \<and> correctSells u' = correctSells u + e
         \<and> 0 \<le> b \<and> b \<le> a \<and> 0 \<le> e \<and> e \<le> c"
  using run
proof (cases rule: runModel_shape)
  case (unresolved x)
  with resolve_same [OF same, of env d] have "runModel env u d = (r, u, [])"
    by (simp add: runModel_def)
  with unresolved show ?thesis
    by (intro exI [of _ u] exI [of _ "[]"] exI [of _ "0::int"]) simp
next
  case (untrained trS trE teS teE row x)
  let ?ud = "u\<lparr>dates := dates u @ [row]\<rparr>"
  let ?sd = "s\<lparr>dates := dates s @ [row]\<rparr>"
  have "initialTraining env ?ud d trS trE teS = initialTraining env ?sd d trS trE teS"
    by (rule initialTraining_same) (simp_all add: same_reset [OF same])
  with untrained resolve_same [OF same, of env d] have "runModel env u d = (r, ?ud, [])"
    by (simp add: runModel_def)
  with untrained show ?thesis
    by (intro exI [of _ ?ud] exI [of _ "[]"] exI [of _ "0::int"] exI [of _ "[row]"]) simp
next
  case (tested trS trE teS teE row L0 L s1)
  let ?ud = "u\<lparr>dates := dates u @ [row]\<rparr>"
  let ?sd = "s\<lparr>dates := dates s @ [row]\<rparr>"
  have it: "initialTraining env ?ud d trS trE teS = Inr L0"
    using tested(2) initialTraining_same [of ?ud ?sd env d trS trE teS]
    by (simp add: same_reset [OF same])
  have li: "loopInputs ?ud = loopInputs ?sd"
    by (simp add: loopInputs_def same_reset [OF same])
  from testLoop_addStats [OF li tested(3)] obtain a b c e evs' where
    s1: "s1 = addStats a b c e ?sd"
    and tu: "testLoop env d teE L0 ?ud = (r, L, addStats a b c e ?ud, evs')"
    and bounds: "0 \<le> b" "b \<le> a" "0 \<le> e" "e \<le> c" by blast
  define u' where "u' = (case r of
       Some x \<Rightarrow> addStats a b c e ?ud
     | None \<Rightarrow> (addStats a b c e ?ud)\<lparr>XX := Some (loc_XX L), yy := Some (loc_yy L), model := Some (loc_model L)\<rparr>)"
  from tested(1) resolve_same [OF same, of env d] it tu
  have ru: "runModel env u d = (r, u', evs')"
    by (cases r) (simp_all add: runModel_def u'_def)
  have "dates s' = dates s @ [row]" "totalBuys s' = totalBuys s + a" "correctBuys s' = correctBuys s + b"
    "totalSells s' = totalSells s + c" "correctSells s' = correctSells s + e"
    using tested(4) s1 by (cases r; simp add: addStats_def)+
  moreover have "dates u' = dates u @ [row]" "totalBuys u' = totalBuys u + a" "correctBuys u' = correctBuys u + b"
    "totalSells u' = totalSells u + c" "correctSells u' = correctSells u + e"
    by (cases r; simp add: u'_def addStats_def)+
  ultimately show ?thesis using ru bounds by blast
qed

lemma resetStats_idem: "resetStats (resetStats s) = resetStats s"
  by (simp add: resetStats_def)

lemma resetStats_stats:
  "dates (resetStats s) = []" "totalBuys (resetStats s) = 0" "correctBuys (resetStats s) = 0"
  "totalSells (resetStats s) = 0" "correctSells (resetStats s) = 0"
  by (simp_all add: resetStats_def)

subsection \<open>Runs under two buy thresholds\<close>

lemma retrain_ct:
  assumes "continuedTraining u = continuedTraining s"
  shows "retrain env u Xs perf L = retrain env s Xs perf L"
  unfolding retrain_def assms by (rule refl)

lemma resolve_cong:
  assumes "stocks u = stocks s" "trainStart u = trainStart s" "trainEnd u = trainEnd s"
    "testStart u = testStart s" "testEnd u = testEnd s"
  shows "resolve env u d = resolve env s d"
  unfolding resolve_def assms by (rule refl)

lemma decide_buy_iff: "decide s neg pos = 1 \<longleftrightarrow> buyThreshold s \<le> pos"
  by (simp add: decide_def)

lemma ct_judge_tally [simp]: "continuedTraining (judge p perf (tally q s)) = continuedTraining s"
  by (simp add: judge_addStats tally_addStats addStats_def)

text \<open>
  Two objects that agree on what the loop reads, but for a higher buy threshold in the
  second: a pass raises the same on both, leaves the same locals, and counts a buy on
  the second only if it counts one on the first.
\<close>

lemma period_mono:
  assumes vars: "variables u = variables s"
    and ct: "continuedTraining u = continuedTraining s"
    and le: "buyThreshold s \<le> buyThreshold u"
    and p: "period env d L s = (r, L', s', evs)"
  shows "\<exists>u' evs'. period env d L u = (r, L', u', evs')
           \<and> totalBuys u' - totalBuys u \<le> totalBuys s' - totalBuys s"
proof (cases "conditions env d (testPeriod L) (variables s)")
  case (Inl x)
  with p vars have "s' = s" "period env d L u = (r, L', u, [])" by (auto simp: period_def)
  then show ?thesis by simp
next
  case (Inr Xs)
  note c = this
  show ?thesis
  proof (cases "Predict env (loc_model L) Xs")
    case (Inl x)
    with p vars c have "s' = s" "period env d L u = (r, L', u, [])" by (auto simp: period_def)
    then show ?thesis by simp
  next
    case (Inr np)
    obtain neg pos where "np = (neg, pos)" by (cases np)
    with Inr have pr: "Predict env (loc_model L) Xs = Inr (neg, pos)" by simp
    define q where "q = decide s neg pos"
    define q' where "q' = decide u neg pos"
    have qq: "q' = 1 \<Longrightarrow> q = 1" using le by (simp add: q_def q'_def decide_buy_iff)
    have buys: "totalBuys (tally q' u) - totalBuys u \<le> totalBuys (tally q s) - totalBuys s"
      using qq by (simp add: tally_counts)
    show ?thesis
    proof (cases "PercentChange env d (testPeriod L + 1)")
      case (Inl x)
      with p c pr have "s' = tally q s" "r = Some x" "L' = L\<lparr>testPeriod := testPeriod L + 1\<rparr>"
        by (auto simp: period_def Let_def q_def)
      moreover from vars c pr Inl
      have "period env d L u = (Some x, L\<lparr>testPeriod := testPeriod L + 1\<rparr>, tally q' u,
                [Decided (testPeriod L) neg pos q' (tally q' u)])"
        by (simp add: period_def Let_def q'_def)
      ultimately show ?thesis using buys by simp
    next
      case (Inr perf)
      note pc = this
      let ?L1 = "L\<lparr>testPeriod := testPeriod L + 1\<rparr>"
      let ?s2 = "judge q perf (tally q s)"
      let ?u2 = "judge q' perf (tally q' u)"
      have ru: "retrain env ?u2 Xs perf ?L1 = retrain env ?s2 Xs perf ?L1"
        by (rule retrain_ct) (simp add: ct)
      have buys2: "totalBuys ?u2 - totalBuys u \<le> totalBuys ?s2 - totalBuys s"
        using buys by (simp add: judge_counts(3))
      show ?thesis
      proof (cases "retrain env ?s2 Xs perf ?L1")
        case (Inl x)
        with p c pr pc have "s' = ?s2 \<and> r = Some x \<and> L' = ?L1"
          by (auto simp: period_def Let_def q_def)
        moreover from vars c pr pc ru Inl
        have "period env d L u = (Some x, ?L1, ?u2,
                [Decided (testPeriod L) neg pos q' (tally q' u), Judged (testPeriod L + 1) perf ?u2])"
          by (simp add: period_def Let_def q'_def)
        ultimately show ?thesis using buys2 by simp
      next
        case (Inr L2)
        with p c pr pc have "s' = ?s2 \<and> r = None \<and> L' = L2"
          by (auto simp: period_def Let_def q_def)
        moreover from vars c pr pc ru Inr
        have "period env d L u = (None, L2, ?u2,
                [Decided (testPeriod L) neg pos q' (tally q' u), Judged (testPeriod L + 1) perf ?u2])"
          by (simp add: period_def Let_def q'_def)
        ultimately show ?thesis using buys2 by simp
      qed
    qed
  qed
qed

lemma testLoop_mono:
  "variables u = variables s \<Longrightarrow> continuedTraining u = continuedTraining s \<Longrightarrow>
   buyThreshold s \<le> buyThreshold u \<Longrightarrow> testLoop env d tEnd L s = (r, L', s', evs) \<Longrightarrow>
     \<exists>u' evs'. testLoop env d tEnd L u = (r, L', u', evs')
        \<and> totalBuys u' - totalBuys u \<le> totalBuys s' - totalBuys s"
proof (induction L s arbitrary: u r L' s' evs rule: testLoop_cases [where tEnd = tEnd and env = env and d = d])
  case (1 L s)
  then show ?case by (simp add: testLoop_stop)
next
  case (2 L s x L1 s1 evs1)
  then have p: "period env d L s = (r, L', s', evs)" and r: "r = Some x" by (simp_all add: testLoop_fail)
  from period_mono [OF "2.prems"(1,2,3) p] obtain u' evs' where
    "period env d L u = (r, L', u', evs')" "totalBuys u' - totalBuys u \<le> totalBuys s' - totalBuys s"
    by blast
  with r "2.hyps"(1) show ?case by (auto simp: testLoop_fail)
next
  case (3 L s L1 s1 evs1)
  from "3.prems"(4) obtain evs2 where t: "testLoop env d tEnd L1 s1 = (r, L', s', evs2)"
    by (rule testLoop_stepE [OF "3.hyps"(1,2)])
  from period_mono [OF "3.prems"(1,2,3) "3.hyps"(2)] obtain u1 evsu where
    pu: "period env d L u = (None, L1, u1, evsu)"
    and b1: "totalBuys u1 - totalBuys u \<le> totalBuys s1 - totalBuys s" by blast
  have ss: "setupOf s1 = setupOf s" by (rule period_setup [OF "3.hyps"(2)])
  have us: "setupOf u1 = setupOf u" by (rule period_setup [OF pu])
  have rel: "variables u1 = variables s1" "continuedTraining u1 = continuedTraining s1"
    "buyThreshold s1 \<le> buyThreshold u1"
    using "3.prems"(1,2,3) by (simp_all add: same_setup [OF ss] same_setup [OF us])
  from "3.IH" [OF rel t] obtain u' evsu' where
    tu: "testLoop env d tEnd L1 u1 = (r, L', u', evsu')"
    and b2: "totalBuys u' - totalBuys u1 \<le> totalBuys s' - totalBuys s1" by blast
  from tu pu "3.hyps"(1) have "testLoop env d tEnd L u = (r, L', u', evsu @ evsu')"
    by (simp add: testLoop_step)
  moreover from b1 b2 have "totalBuys u' - totalBuys u \<le> totalBuys s' - totalBuys s" by simp
  ultimately show ?case by blast
qed

subsection \<open>The training set\<close>

lemma featuresAt_eq: "conditions env d i vars = Inr Xs \<Longrightarrow> featuresAt env d vars i = Xs"
  by (simp add: featuresAt_def)

lemma labelAt_eq: "PercentChange env d i = Inr v \<Longrightarrow> labelAt env d i = label v"
  by (simp add: labelAt_def label_def)

lemma training_result:
  "training env d vars is X y = Inr (X', y') \<Longrightarrow>
     X' = X @ map (featuresAt env d vars) is \<and> y' = y @ map (\<lambda>i. labelAt env d (i + 1)) is"
proof (induction "is" arbitrary: X y)
  case Nil
  then show ?case by simp
next
  case (Cons i "is")
  from Cons.prems obtain Xs y1 where c: "conditions env d i vars = Inr Xs"
    and pc: "PercentChange env d (i + 1) = Inr y1"
    and rest: "training env d vars is (X @ [Xs]) (y @ [label y1]) = Inr (X', y')"
    by (auto split: sum.splits)
  from Cons.IH [OF rest] featuresAt_eq [OF c] labelAt_eq [OF pc] show ?case by simp
qed

lemma initialTraining_result:
  assumes "initialTraining env s d trS trE teS = Inr L0"
  shows "loc_X L0 = map (featuresAt env d (variables s)) [trS..trE]"
    and "loc_y L0 = map (\<lambda>i. labelAt env d (i + 1)) [trS..trE]"
    and "loc_XX L0 = loc_X L0" and "loc_yy L0 = loc_y L0"
    and "trS \<le> trE"
proof -
  from assms obtain X y where t: "training env d (variables s) [trS..trE] [] [] = Inr (X, y)"
    and v: "vstack X = Inr (loc_XX L0)" and h: "hstack y = Inr (loc_yy L0)"
    and l: "loc_X L0 = X" "loc_y L0 = y"
    by (auto simp: initialTraining_def split: sum.splits prod.splits)
  from training_result [OF t] have X: "X = map (featuresAt env d (variables s)) [trS..trE]"
    and y: "y = map (\<lambda>i. labelAt env d (i + 1)) [trS..trE]" by simp_all
  from v have vx: "loc_XX L0 = X" "X \<noteq> []" by (auto simp: vstack_def split: if_splits)
  from h have hy: "loc_yy L0 = y" by (auto simp: hstack_def split: if_splits)
  show "loc_X L0 = map (featuresAt env d (variables s)) [trS..trE]" using l X by simp
  show "loc_y L0 = map (\<lambda>i. labelAt env d (i + 1)) [trS..trE]" using l y by simp
  show "loc_XX L0 = loc_X L0" using vx l by simp
  show "loc_yy L0 = loc_y L0" using hy l by simp
  show "trS \<le> trE" using vx(2) X by (cases "trS \<le> trE") simp_all
qed

lemma retrain_result:
  assumes "retrain env s Xs perf L = Inr L'" "loc_XX L = loc_X L" "loc_yy L = loc_y L"
  shows "loc_X L' = loc_X L @ (if continuedTraining s then [Xs] else [])"
    and "loc_y L' = loc_y L @ (if continuedTraining s then [label perf] else [])"
    and "loc_XX L' = loc_X L'" and "loc_yy L' = loc_y L'"
  using assms
  by (auto simp: retrain_def Let_def vstack_def hstack_def split: if_splits sum.splits)

lemma period_training:
  assumes p: "period env d L s = (None, L', s', evs)"
    and sync: "loc_XX L = loc_X L" "loc_yy L = loc_y L"
  shows "loc_X L' = loc_X L @ (if continuedTraining s then [featuresAt env d (variables s) (testPeriod L)] else [])"
    and "loc_y L' = loc_y L @ (if continuedTraining s then [labelAt env d (testPeriod L + 1)] else [])"
    and "loc_XX L' = loc_X L'" and "loc_yy L' = loc_y L'"
proof -
  from p obtain Xs perf where c: "conditions env d (testPeriod L) (variables s) = Inr Xs"
    and pc: "PercentChange env d (testPeriod L + 1) = Inr perf"
    and re: "retrain env s' Xs perf (L\<lparr>testPeriod := testPeriod L + 1\<rparr>) = Inr L'"
    by (elim period_shape) simp_all
  have ct: "continuedTraining s' = continuedTraining s"
    by (rule same_setup(4) [OF period_setup [OF p]])
  have sync': "loc_XX (L\<lparr>testPeriod := testPeriod L + 1\<rparr>) = loc_X (L\<lparr>testPeriod := testPeriod L + 1\<rparr>)"
    "loc_yy (L\<lparr>testPeriod := testPeriod L + 1\<rparr>) = loc_y (L\<lparr>testPeriod := testPeriod L + 1\<rparr>)"
    using sync by simp_all
  from retrain_result [OF re sync'] ct featuresAt_eq [OF c] labelAt_eq [OF pc]
  show "loc_X L' = loc_X L @ (if continuedTraining s then [featuresAt env d (variables s) (testPeriod L)] else [])"
    and "loc_y L' = loc_y L @ (if continuedTraining s then [labelAt env d (testPeriod L + 1)] else [])"
    and "loc_XX L' = loc_X L'" and "loc_yy L' = loc_y L'"
    by simp_all
qed

lemma testLoop_training:
  "testLoop env d tEnd L s = (None, L', s', evs) \<Longrightarrow> loc_XX L = loc_X L \<Longrightarrow> loc_yy L = loc_y L \<Longrightarrow>
     loc_XX L' = loc_X L @ (if continuedTraining s
                            then map (featuresAt env d (variables s)) [testPeriod L..tEnd - 1] else [])
     \<and> loc_yy L' = loc_y L @ (if continuedTraining s
                             then map (\<lambda>i. labelAt env d (i + 1)) [testPeriod L..tEnd - 1] else [])"
proof (induction L s arbitrary: L' s' evs rule: testLoop_cases [where tEnd = tEnd and env = env and d = d])
  case (1 L s)
  then show ?case by (simp add: testLoop_stop)
next
  case (2 L s e L1 s1 evs1)
  then show ?case by (simp add: testLoop_fail)
next
  case (3 L s L1 s1 evs1)
  from "3.prems"(1) obtain evs' where t: "testLoop env d tEnd L1 s1 = (None, L', s', evs')"
    by (rule testLoop_stepE [OF "3.hyps"(1,2)])
  note pt = period_training [OF "3.hyps"(2) "3.prems"(2,3)]
  have su: "setupOf s1 = setupOf s" by (rule period_setup [OF "3.hyps"(2)])
  have c: "testPeriod L1 = testPeriod L + 1" by (rule period_cursor [OF "3.hyps"(2)])
  have u: "[testPeriod L..tEnd - 1] = testPeriod L # [testPeriod L + 1..tEnd - 1]"
    using "3.hyps"(1) by (simp add: upto_rec1)
  from "3.IH" [OF t pt(3,4)] pt(1,2) show ?case
    by (simp add: same_setup(1,4) [OF su] c u)
qed

subsection \<open>Rounding stays in range\<close>

lemma round_half_even_bounds:
  assumes "0 \<le> r" "r \<le> of_int n"
  shows "0 \<le> round_half_even r \<and> round_half_even r \<le> n"
proof -
  have f0: "0 \<le> \<lfloor>r\<rfloor>" using assms(1) by simp
  have fn: "\<lfloor>r\<rfloor> \<le> n" using assms(2) by (simp add: floor_le_iff)
  show ?thesis
  proof (cases "\<lfloor>r\<rfloor> = n")
    case True
    then have "r - of_int \<lfloor>r\<rfloor> \<le> 0" using assms(2) by simp
    then show ?thesis using True f0 by (simp add: round_half_even_def Let_def)
  next
    case False
    with fn have "\<lfloor>r\<rfloor> + 1 \<le> n" by simp
    then show ?thesis using f0 fn by (simp add: round_half_even_def Let_def)
  qed
qed

lemma round2_range:
  assumes "0 \<le> x" "x \<le> 100"
  shows "0 \<le> round2 x \<and> round2 x \<le> 100"
proof -
  have "0 \<le> x * 100" "x * 100 \<le> of_int 10000" using assms by simp_all
  from round_half_even_bounds [OF this]
  have lo: "0 \<le> round_half_even (x * 100)" and hi: "round_half_even (x * 100) \<le> 10000" by simp_all
  from lo have "(0::real) \<le> of_int (round_half_even (x * 100))" by simp
  moreover from hi have "(of_int (round_half_even (x * 100)) :: real) \<le> of_int 10000"
    by (rule iffD2 [OF of_int_le_iff])
  ultimately have "(0::real) \<le> of_int (round_half_even (x * 100))
      \<and> (of_int (round_half_even (x * 100)) :: real) \<le> 10000" by simp
  then show ?thesis by (simp add: round2_def)
qed

subsection \<open>Rounding to doubles\<close>

lemma norm_exp_unfold:
  "norm_exp n x =
     (if n = 0 then 0
      else if 2 \<le> x then norm_exp (n - 1) (x / 2) + 1
      else if x < 1 then norm_exp (n - 1) (x * 2) - 1
      else 0)"
  by (cases n) simp_all

lemma norm_exp_less: "0 < K \<Longrightarrow> x < 2 ^ K \<Longrightarrow> norm_exp n x < int K"
proof (induction n arbitrary: x K)
  case 0
  then show ?case by simp
next
  case (Suc n)
  show ?case
  proof (cases "2 \<le> x")
    case True
    with Suc.prems have "1 < K" by (cases "K = 1") auto
    then obtain K' where K: "K = Suc K'" "0 < K'" by (cases K) auto
    with Suc.prems have "x / 2 < 2 ^ K'" by simp
    from Suc.IH [OF K(2) this] True K show ?thesis by simp
  next
    case False
    show ?thesis
    proof (cases "x < 1")
      case True
      then have "x * 2 < 2 ^ 1" by simp
      from Suc.IH [OF _ this] True False Suc.prems show ?thesis by simp
    next
      case False
      with \<open>\<not> 2 \<le> x\<close> Suc.prems show ?thesis by simp
    qed
  qed
qed

lemma round_half_even_int [simp]: "round_half_even (of_int k) = k"
  by (simp add: round_half_even_def Let_def)

text \<open>Below \<open>2^53\<close> the spacing of the doubles is a power of two that is at most one.\<close>

lemma ulp_small:
  assumes "\<bar>x\<bar> < 2 ^ 53"
  obtains m where "pow2 (max (norm_exp 2100 \<bar>x\<bar>) (- 1022) - 52) = 1 / 2 ^ m"
proof -
  from norm_exp_less [of 53 "\<bar>x\<bar>" 2100] assms have "norm_exp 2100 \<bar>x\<bar> < 53" by simp
  then have e: "max (norm_exp 2100 \<bar>x\<bar>) (- 1022) - 52 \<le> 0" by simp
  show ?thesis
  proof (cases "max (norm_exp 2100 \<bar>x\<bar>) (- 1022) - 52 = 0")
    case True
    then have "pow2 (max (norm_exp 2100 \<bar>x\<bar>) (- 1022) - 52) = 1 / 2 ^ 0" by (simp add: pow2_def)
    then show ?thesis by (rule that)
  next
    case False
    with e have "pow2 (max (norm_exp 2100 \<bar>x\<bar>) (- 1022) - 52)
        = 1 / 2 ^ nat (- (max (norm_exp 2100 \<bar>x\<bar>) (- 1022) - 52))"
      by (simp add: pow2_def)
    then show ?thesis by (rule that)
  qed
qed

lemma double_int:
  assumes "\<bar>n\<bar> < 2 ^ 53"
  shows "double (of_int n) = of_int n"
proof (cases "n = 0")
  case True
  then show ?thesis by (simp add: double_def)
next
  case False
  from assms have "\<bar>real_of_int n\<bar> < 2 ^ 53"
    by (metis of_int_abs of_int_less_iff of_int_numeral of_int_power)
  then obtain m where u: "pow2 (max (norm_exp 2100 \<bar>real_of_int n\<bar>) (- 1022) - 52) = 1 / 2 ^ m"
    by (rule ulp_small)
  have "real_of_int n / (1 / 2 ^ m) = of_int (n * 2 ^ m)" by simp
  then have "round_half_even (real_of_int n / (1 / 2 ^ m)) = n * 2 ^ m"
    by (simp only: round_half_even_int)
  with False u show ?thesis by (simp add: double_def Let_def)
qed

lemma double_range:
  assumes "0 \<le> x" "x \<le> of_int B" "x < 2 ^ 53"
  shows "0 \<le> double x \<and> double x \<le> of_int B"
proof (cases "x = 0")
  case True
  with assms show ?thesis by (simp add: double_def)
next
  case False
  from assms have "\<bar>x\<bar> < 2 ^ 53" by simp
  then obtain m where u: "pow2 (max (norm_exp 2100 \<bar>x\<bar>) (- 1022) - 52) = 1 / 2 ^ m"
    by (rule ulp_small)
  have "0 \<le> x / (1 / 2 ^ m)" using assms(1) by simp
  moreover have "x / (1 / 2 ^ m) \<le> of_int (B * 2 ^ m)" using assms(2) by simp
  ultimately have r: "0 \<le> round_half_even (x / (1 / 2 ^ m))"
    "round_half_even (x / (1 / 2 ^ m)) \<le> B * 2 ^ m"
    using round_half_even_bounds by blast+
  from r(2) have "real_of_int (round_half_even (x / (1 / 2 ^ m))) \<le> real_of_int (B * 2 ^ m)"
    by (rule iffD2 [OF of_int_le_iff])
  then have "real_of_int (round_half_even (x / (1 / 2 ^ m))) * (1 / 2 ^ m) \<le> of_int B"
    by (simp add: field_simps)
  moreover from r(1) have "0 \<le> real_of_int (round_half_even (x / (1 / 2 ^ m))) * (1 / 2 ^ m)"
    by simp
  ultimately show ?thesis using False u by (simp add: double_def Let_def)
qed

lemma float_of_int_small: "\<bar>n\<bar> < 2 ^ 53 \<Longrightarrow> float_of_int n = Inr (of_int n)"
proof -
  assume a: "\<bar>n\<bar> < 2 ^ 53"
  then have "\<bar>real_of_int n\<bar> < 2 ^ 53"
    by (metis of_int_abs of_int_less_iff of_int_numeral of_int_power)
  also have "(2::real) ^ 53 \<le> 2 ^ 1024" by (rule power_increasing) simp_all
  finally show ?thesis using double_int [OF a] by (simp add: float_of_int_def Let_def)
qed

lemma to_float_small:
  assumes "0 \<le> x" "x \<le> of_int B" "x < 2 ^ 53" "B < 2 ^ 53"
  shows "to_float x = Fin (double x) \<and> 0 \<le> double x \<and> double x \<le> of_int B"
proof -
  from double_range [OF assms(1,2,3)] have r: "0 \<le> double x" "double x \<le> of_int B" by simp_all
  from assms(4) have "real_of_int B < 2 ^ 53"
    by (metis of_int_less_iff of_int_numeral of_int_power)
  also have "(2::real) ^ 53 \<le> 2 ^ 1024" by (rule power_increasing) simp_all
  finally have "\<bar>double x\<bar> < 2 ^ 1024" using r by simp
  with r show ?thesis by (simp add: to_float_def Let_def)
qed

lemma stats_zero: "\<bar>c\<bar> < 2 ^ 53 \<Longrightarrow> stats c 0 = Inr (Fin 0)"
  by (simp add: stats_def float_of_int_small float_div_def except_ZeroDivisionError_def)

lemma stats_ordered:
  assumes c: "0 \<le> c" "c \<le> t" and t: "t < 2 ^ 53"
  shows "stats c t = Inr (Fin (accuracy_float c t))
       \<and> 0 \<le> accuracy_float c t \<and> accuracy_float c t \<le> 100"
proof (cases "t = 0")
  case True
  with c have "c = 0" by simp
  with True show ?thesis by (simp add: stats_zero accuracy_float_def)
next
  case False
  with c have tp: "0 < t" by simp
  from c t have cs: "\<bar>c\<bar> < 2 ^ 53" and ts: "\<bar>t\<bar> < 2 ^ 53" by simp_all
  let ?q = "real_of_int c / real_of_int t"
  have q: "0 \<le> ?q" "?q \<le> of_int 1" "?q < 2 ^ 53"
    using c tp by (simp_all add: pos_divide_le_eq pos_divide_less_eq)
  from to_float_small [OF q] have dq: "to_float ?q = Fin (double ?q)"
    "0 \<le> double ?q" "double ?q \<le> 1" by simp_all
  let ?y = "double ?q * 100"
  have y: "0 \<le> ?y" "?y \<le> of_int 100" "?y < 2 ^ 53" using dq(2,3) by simp_all
  from to_float_small [OF y] have dy: "to_float ?y = Fin (double ?y)"
    "0 \<le> double ?y" "double ?y \<le> 100" by simp_all
  from round2_range [OF dy(2,3)] have r: "0 \<le> round2 (double ?y)" "round2 (double ?y) \<le> of_int 100"
    "round2 (double ?y) < 2 ^ 53" by simp_all
  from to_float_small [OF r] have dr: "0 \<le> double (round2 (double ?y))"
    "double (round2 (double ?y)) \<le> 100" by simp_all
  then have fin: "\<not> 2 ^ 1024 \<le> \<bar>double (round2 (double ?y))\<bar>" by simp
  have "stats c t = Inr (Fin (double (round2 (double ?y))))"
    using False fin
    by (simp add: stats_def float_of_int_small [OF cs] float_of_int_small [OF ts]
        float_div_def dq(1) times100_def dy(1) py_round2_def Let_def)
  with dr False show ?thesis by (simp add: accuracy_float_def)
qed

lemmas double_eval = double_def norm_exp_unfold pow2_def round_half_even_def round2_def Let_def

subsection \<open>The concrete market, evaluated\<close>

lemma ex_new_eq: "ex_new buyT sellT ct = Inr ((ex_bt buyT sellT ct)\<lparr>stocks := []\<rparr>)"
  by (simp add: ex_new_def ex_bt_def Backtest_init_def ex_tz_def)

lemmas ex_eval = runModel_def resolve_def ex_env_def ex_bt_def ex_data_def initialTraining_def
  upto.simps label_def vstack_def hstack_def ex_fit_def ex_change_def testLoop.simps period_def
  decide_def tally_def judge_def retrain_def Let_def

lemma ex_bt_reachable: "reachable ex_env (ex_bt buyT sellT ct)"
proof -
  have "reachable ex_env ((ex_bt buyT sellT ct)\<lparr>stocks := []\<rparr>)"
    using ex_new_eq [of buyT sellT ct] unfolding ex_new_def by (rule reachable.constructed)
  then have "reachable ex_env ((ex_bt buyT sellT ct)\<lparr>stocks := [], stocks := [''TSLA'']\<rparr>)"
    by (rule reachable.stock_set)
  then show ?thesis by (simp add: ex_bt_def)
qed

lemma triple_eq: "x = (raisedBy x, objectAfter x, logOf x)"
  by (cases x) simp

lemma ex_run_reachable:
  "reachable ex_env (objectAfter ex_run)"
  "ev \<in> set (logOf ex_run) \<Longrightarrow> reachable ex_env (stateOf ev)"
proof -
  have run: "runModel ex_env (ex_bt (1/2) (1/2) True) ex_data = (raisedBy ex_run, objectAfter ex_run, logOf ex_run)"
    unfolding ex_run_def by (rule triple_eq)
  show "reachable ex_env (objectAfter ex_run)"
    by (rule reachable.after_run [OF ex_bt_reachable run])
  show "ev \<in> set (logOf ex_run) \<Longrightarrow> reachable ex_env (stateOf ev)"
    by (rule reachable.during_run [OF ex_bt_reachable run])
qed

section \<open>The claims\<close>

text \<open>
  C1. In every test period the decision rule is evaluated with buy first. For every
  decision the log of a run shows, taken at cursor \<open>t\<close> on the confidences
  \<open>(neg, pos)\<close> the classifier gave for the features of \<open>t\<close>: the decision is Buy if
  \<open>pos\<close> reaches the buy threshold, else Sell if \<open>neg\<close> reaches the sell threshold,
  else Hold; when both thresholds are reached it is Buy.
\<close>

theorem C1_decision_rule:
  "Decided t neg pos p s1 \<in> set (logOf (runModel env s d)) \<Longrightarrow>
     decisionOf p = decision_rule (buyThreshold s) (sellThreshold s) pos neg
     \<and> (buyThreshold s \<le> pos \<and> sellThreshold s \<le> neg \<longrightarrow> decisionOf p = Buy)
     \<and> (\<exists>Xs m. conditions env d t (variables s) = Inr Xs \<and> Predict env m Xs = Inr (neg, pos))"
proof -
  assume ev: "Decided t neg pos p s1 \<in> set (logOf (runModel env s d))"
  obtain r s' evs where run: "runModel env s d = (r, s', evs)"
    by (cases "runModel env s d") auto
  from run show ?thesis
  proof (cases rule: runModel_shape)
    case (tested trS trE teS teE row L0 L s1')
    let ?sd = "s\<lparr>dates := dates s @ [row]\<rparr>"
    from ev run have "Decided t neg pos p s1 \<in> set evs" by simp
    from testLoop_decisions [OF tested(3) this]
    have "p = decide ?sd neg pos"
      and "\<exists>Xs m. conditions env d t (variables s) = Inr Xs \<and> Predict env m Xs = Inr (neg, pos)"
      by simp_all
    moreover have "decide ?sd neg pos = decide s neg pos" by (simp add: decide_def)
    ultimately show ?thesis
      by (simp add: decisionOf_decide) (simp add: decision_rule_def)
  qed (use ev run in simp_all)
qed



theorem C1_decision_rule_witness:
  "Decided 4 (1/3) (2/3) 1 (stateOf (hd (logOf (runModel ex_env (ex_bt (1/4) (1/4) False) ex_data))))
     \<in> set (logOf (runModel ex_env (ex_bt (1/4) (1/4) False) ex_data))
   \<and> (1/4 :: real) \<le> 2/3 \<and> (1/4 :: real) \<le> 1/3 \<and> decisionOf 1 = Buy"
proof -
  have h: "Decided 4 (1/3) (2/3) 1 (stateOf (hd (logOf (runModel ex_env (ex_bt (1/4) (1/4) False) ex_data))))
     \<in> set (logOf (runModel ex_env (ex_bt (1/4) (1/4) False) ex_data))"
    by (simp add: ex_eval)
  have b: "buyThreshold (ex_bt (1/4) (1/4) False) = 1/4" "sellThreshold (ex_bt (1/4) (1/4) False) = 1/4"
    by (simp_all add: ex_bt_def)
  from C1_decision_rule [OF h] have "decisionOf 1 = Buy" unfolding b by (simp add: decision_rule_def)
  with h show ?thesis by simp
qed

text \<open>
  C2. The cursor is advanced before the outcome is computed. The log of a run whose
  window resolved to the test indices \<open>teS\<close>, \<open>teE\<close> follows the schedule: the first
  decision is taken at \<open>teS\<close>, each decision at a cursor \<open>t < teE\<close>, its outcome is
  the percent change at \<open>t + 1\<close>, and the next decision is taken at \<open>t + 1\<close>. A run
  that does not raise decides at exactly \<open>teS, ..., teE - 1\<close> and judges at exactly
  \<open>teS + 1, ..., teE\<close>.
\<close>

theorem C2_cursor_schedule:
  "resolve env s d = Inr ((trS, trE, teS, teE), row) \<Longrightarrow>
     schedule env d teS teE (logOf (runModel env s d))
     \<and> (raisedBy (runModel env s d) = None \<longrightarrow>
          decidedAt (logOf (runModel env s d)) = [teS..teE - 1]
          \<and> judgedAt (logOf (runModel env s d)) = [teS + 1..teE])"
proof -
  assume res: "resolve env s d = Inr ((trS, trE, teS, teE), row)"
  obtain r s' evs where run: "runModel env s d = (r, s', evs)"
    by (cases "runModel env s d") auto
  from run show ?thesis
  proof (cases rule: runModel_shape)
    case (tested trS' trE' teS' teE' row' L0 L s1)
    with res have eq: "teS' = teS" "teE' = teE" by simp_all
    from initialTraining_cursor [OF tested(2)] eq have "testPeriod L0 = teS" by simp
    with testLoop_schedule [OF tested(3)] eq run show ?thesis by simp
  qed (use res run in simp_all)
qed



theorem C2_cursor_schedule_witness:
  "resolve ex_env (ex_bt (1/2) (1/2) True) ex_data
     = Inr ((1, 3, 4, 7), [''01/02/2020'', ''01/02/2020'', ''01/02/2020'', ''01/02/2020''])
   \<and> raisedBy ex_run = None
   \<and> schedule ex_env ex_data 4 7 (logOf ex_run)
   \<and> decidedAt (logOf ex_run) = [4, 5, 6]
   \<and> judgedAt (logOf ex_run) = [5, 6, 7]"
proof -
  have h: "resolve ex_env (ex_bt (1/2) (1/2) True) ex_data
     = Inr ((1, 3, 4, 7), [''01/02/2020'', ''01/02/2020'', ''01/02/2020'', ''01/02/2020''])"
    by (simp add: resolve_def ex_env_def ex_bt_def ex_data_def)
  have r: "raisedBy (runModel ex_env (ex_bt (1/2) (1/2) True) ex_data) = None" by (simp add: ex_eval)
  have u: "[4..7 - 1] = [4, 5, (6::int)]" "[4 + 1..7] = [5, 6, (7::int)]" by (simp_all add: upto.simps)
  from C2_cursor_schedule [OF h] r show ?thesis unfolding ex_run_def u using h by simp
qed

text \<open>
  C3. For every test period, with \<open>s1\<close> the object after the decision was counted and
  \<open>s2\<close> the object after its outcome was judged: \<open>correctBuys\<close> grows by one exactly
  when the decision is Buy and the outcome is above zero, \<open>correctSells\<close> grows by one
  exactly when the decision is Sell and the outcome is below zero, the totals are
  untouched, and an outcome of exactly zero leaves both correct counters as they were.
  A Hold changes neither.
\<close>

theorem C3_flat_outcome_incorrect:
  "logOf (runModel env s d) = pre @ Decided t neg pos p s1 # Judged t' perf s2 # post \<Longrightarrow>
     correctBuys s2 = correctBuys s1 + (if decisionOf p = Buy \<and> 0 < perf then 1 else 0)
     \<and> correctSells s2 = correctSells s1 + (if decisionOf p = Sell \<and> perf < 0 then 1 else 0)
     \<and> totalBuys s2 = totalBuys s1 \<and> totalSells s2 = totalSells s1
     \<and> (perf = 0 \<longrightarrow> correctBuys s2 = correctBuys s1 \<and> correctSells s2 = correctSells s1)"
proof -
  assume lg: "logOf (runModel env s d) = pre @ Decided t neg pos p s1 # Judged t' perf s2 # post"
  obtain r s' evs where run: "runModel env s d = (r, s', evs)"
    by (cases "runModel env s d") auto
  from run have "s2 = judge p perf s1"
  proof (cases rule: runModel_shape)
    case (tested trS trE teS teE row L0 L s1')
    from lg run have "evs = pre @ Decided t neg pos p s1 # Judged t' perf s2 # post" by simp
    from testLoop_judged [OF tested(3) this] show ?thesis .
  qed (use lg run in simp_all)
  then show ?thesis by (simp add: judge_counts)
qed


theorem C3_flat_outcome_incorrect_witness:
  "logOf ex_run =
     take 4 (logOf ex_run)
       @ Decided 6 (2/5) (3/5) 1 (stateOf (logOf ex_run ! 4))
       # Judged 7 0 (stateOf (logOf ex_run ! 5)) # []
   \<and> decisionOf 1 = Buy
   \<and> correctBuys (stateOf (logOf ex_run ! 5)) = correctBuys (stateOf (logOf ex_run ! 4))
   \<and> correctSells (stateOf (logOf ex_run ! 5)) = correctSells (stateOf (logOf ex_run ! 4))"
proof -
  have h: "logOf (runModel ex_env (ex_bt (1/2) (1/2) True) ex_data) =
     take 4 (logOf ex_run)
       @ Decided 6 (2/5) (3/5) 1 (stateOf (logOf ex_run ! 4))
       # Judged 7 0 (stateOf (logOf ex_run ! 5)) # []"
    by (simp add: ex_run_def ex_eval)
  have d: "decisionOf 1 = Buy" by (simp add: decisionOf_def)
  from C3_flat_outcome_incorrect [OF h] h d show ?thesis unfolding ex_run_def by simp
qed

text \<open>
  C4. After a run that did not raise, on the window resolved to the training indices
  \<open>trS\<close>, \<open>trE\<close> and the test indices \<open>teS\<close>, \<open>teE\<close>: the retained training set holds
  one pair per index of \<open>[trS, trE]\<close>, the features of the index and the label of the
  percent change one index later (1 if above zero, else 0); with continued training it
  holds one more pair per test period, in order, whatever was decided there. So without
  continued training its size is \<open>trE - trS + 1\<close>, and with it that plus the number of
  test periods processed.
\<close>

theorem C4_training_set:
  "resolve env s d = Inr ((trS, trE, teS, teE), row) \<Longrightarrow> raisedBy (runModel env s d) = None \<Longrightarrow>
     (\<exists>xx yv.
        XX (objectAfter (runModel env s d)) = Some xx
      \<and> yy (objectAfter (runModel env s d)) = Some yv
      \<and> xx = map (featuresAt env d (variables s))
                ([trS..trE] @ (if continuedTraining s then [teS..teE - 1] else []))
      \<and> yv = map (\<lambda>i. labelAt env d (i + 1))
                ([trS..trE] @ (if continuedTraining s then [teS..teE - 1] else []))
      \<and> length yv = length xx
      \<and> int (length xx) = trE - trS + 1
            + (if continuedTraining s then int (length (decidedAt (logOf (runModel env s d)))) else 0))"
proof -
  assume res: "resolve env s d = Inr ((trS, trE, teS, teE), row)"
    and ok: "raisedBy (runModel env s d) = None"
  obtain r s' evs where run: "runModel env s d = (r, s', evs)"
    by (cases "runModel env s d") auto
  with ok have r: "r = None" by simp
  from run show ?thesis
  proof (cases rule: runModel_shape)
    case (tested trS' trE' teS' teE' row' L0 L s1)
    with res have eq: "trS' = trS" "trE' = trE" "teS' = teS" "teE' = teE" "row' = row" by simp_all
    let ?sd = "s\<lparr>dates := dates s @ [row]\<rparr>"
    from tested(2) eq have it: "initialTraining env ?sd d trS trE teS = Inr L0" by simp
    note i = initialTraining_result [OF it]
    have c0: "testPeriod L0 = teS" by (rule initialTraining_cursor [OF it])
    from tested(3) eq r have t: "testLoop env d teE L0 ?sd = (None, L, s1, evs)" by simp
    from testLoop_training [OF t i(3,4)] i(1,2,3,4) c0
    have xx: "loc_XX L = map (featuresAt env d (variables s))
                ([trS..trE] @ (if continuedTraining s then [teS..teE - 1] else []))"
      and yv: "loc_yy L = map (\<lambda>i. labelAt env d (i + 1))
                ([trS..trE] @ (if continuedTraining s then [teS..teE - 1] else []))"
      by simp_all
    from testLoop_schedule [OF t] c0 have dec: "decidedAt evs = [teS..teE - 1]" by simp
    from tested(4) r have s': "XX s' = Some (loc_XX L)" "yy s' = Some (loc_yy L)" by simp_all
    have len: "int (length [trS..trE]) = trE - trS + 1" using i(5) by simp
    have "int (length (loc_XX L)) = trE - trS + 1
            + (if continuedTraining s then int (length (decidedAt evs)) else 0)"
      using len by (simp add: xx dec)
    moreover have "length (loc_yy L) = length (loc_XX L)" by (simp add: xx yv)
    ultimately show ?thesis using run s' xx yv by simp
  qed (use r in simp_all)
qed

theorem C4_training_set_witness:
  "resolve ex_env (ex_bt (1/2) (1/2) True) ex_data
     = Inr ((1, 3, 4, 7), [''01/02/2020'', ''01/02/2020'', ''01/02/2020'', ''01/02/2020''])
   \<and> raisedBy (runModel ex_env (ex_bt (1/2) (1/2) True) ex_data) = None
   \<and> XX (objectAfter (runModel ex_env (ex_bt (1/2) (1/2) True) ex_data))
       = Some [[1], [1], [- 1], [1], [1], [- 1]]
   \<and> yy (objectAfter (runModel ex_env (ex_bt (1/2) (1/2) True) ex_data))
       = Some [1, 0, 1, 1, 0, 0]
   \<and> resolve ex_env (ex_bt (1/2) (1/2) False) ex_data
     = Inr ((1, 3, 4, 7), [''01/02/2020'', ''01/02/2020'', ''01/02/2020'', ''01/02/2020''])
   \<and> raisedBy (runModel ex_env (ex_bt (1/2) (1/2) False) ex_data) = None
   \<and> XX (objectAfter (runModel ex_env (ex_bt (1/2) (1/2) False) ex_data)) = Some [[1], [1], [- 1]]
   \<and> yy (objectAfter (runModel ex_env (ex_bt (1/2) (1/2) False) ex_data)) = Some [1, 0, 1]"
proof -
  have h1: "resolve ex_env (ex_bt (1/2) (1/2) True) ex_data
     = Inr ((1, 3, 4, 7), [''01/02/2020'', ''01/02/2020'', ''01/02/2020'', ''01/02/2020''])"
    and h2: "resolve ex_env (ex_bt (1/2) (1/2) False) ex_data
     = Inr ((1, 3, 4, 7), [''01/02/2020'', ''01/02/2020'', ''01/02/2020'', ''01/02/2020''])"
    by (simp_all add: resolve_def ex_env_def ex_bt_def ex_data_def)
  have r1: "raisedBy (runModel ex_env (ex_bt (1/2) (1/2) True) ex_data) = None"
    and r2: "raisedBy (runModel ex_env (ex_bt (1/2) (1/2) False) ex_data) = None"
    by (simp_all add: ex_eval)
  have f: "featuresAt ex_env ex_data [''Close''] 1 = [1]" "featuresAt ex_env ex_data [''Close''] 2 = [1]"
    "featuresAt ex_env ex_data [''Close''] 3 = [- 1]" "featuresAt ex_env ex_data [''Close''] 4 = [1]"
    "featuresAt ex_env ex_data [''Close''] 5 = [1]" "featuresAt ex_env ex_data [''Close''] 6 = [- 1]"
    by (simp_all add: featuresAt_def ex_env_def ex_change_def ex_data_def)
  have l: "labelAt ex_env ex_data 2 = 1" "labelAt ex_env ex_data 3 = 0" "labelAt ex_env ex_data 4 = 1"
    "labelAt ex_env ex_data 5 = 1" "labelAt ex_env ex_data 6 = 0" "labelAt ex_env ex_data 7 = 0"
    by (simp_all add: labelAt_def ex_env_def ex_change_def ex_data_def)
  have u: "[1..3] = [1, 2, (3::int)]" "[4..7 - 1] = [4, 5, (6::int)]" by (simp_all add: upto.simps)
  have c: "variables (ex_bt (1/2) (1/2) True) = [''Close'']"
    "continuedTraining (ex_bt (1/2) (1/2) True) = True"
    "variables (ex_bt (1/2) (1/2) False) = [''Close'']"
    "continuedTraining (ex_bt (1/2) (1/2) False) = False"
    by (simp_all add: ex_bt_def)
  from C4_training_set [OF h1 r1]
  have a: "XX (objectAfter (runModel ex_env (ex_bt (1/2) (1/2) True) ex_data))
       = Some [[1], [1], [- 1], [1], [1], [- 1]]"
    "yy (objectAfter (runModel ex_env (ex_bt (1/2) (1/2) True) ex_data)) = Some [1, 0, 1, 1, 0, 0]"
    by (auto simp: c u f l)
  from C4_training_set [OF h2 r2]
  have b: "XX (objectAfter (runModel ex_env (ex_bt (1/2) (1/2) False) ex_data)) = Some [[1], [1], [- 1]]"
    "yy (objectAfter (runModel ex_env (ex_bt (1/2) (1/2) False) ex_data)) = Some [1, 0, 1]"
    by (auto simp: c u f l)
  from h1 h2 r1 r2 a b show ?thesis by simp
qed

text \<open>
  C5. Raising the buy threshold, all else fixed, never raises the number of buys. For the
  same object, data and collaborators and thresholds \<open>b1 \<le> b2\<close>: the run with
  \<open>b2\<close> leaves \<open>totalBuys\<close> at most where the run with \<open>b1\<close> leaves it, with continued
  training or without. Both runs raise the same and retain the same training matrix,
  labels and classifier, since what is appended to the training set does not depend on
  the decision.
\<close>

theorem C5_buy_threshold_monotone:
  "b1 \<le> b2 \<Longrightarrow>
     totalBuys (objectAfter (runModel env (s\<lparr>buyThreshold := b2\<rparr>) d))
       \<le> totalBuys (objectAfter (runModel env (s\<lparr>buyThreshold := b1\<rparr>) d))
     \<and> raisedBy (runModel env (s\<lparr>buyThreshold := b2\<rparr>) d)
         = raisedBy (runModel env (s\<lparr>buyThreshold := b1\<rparr>) d)
     \<and> XX (objectAfter (runModel env (s\<lparr>buyThreshold := b2\<rparr>) d))
         = XX (objectAfter (runModel env (s\<lparr>buyThreshold := b1\<rparr>) d))
     \<and> yy (objectAfter (runModel env (s\<lparr>buyThreshold := b2\<rparr>) d))
         = yy (objectAfter (runModel env (s\<lparr>buyThreshold := b1\<rparr>) d))
     \<and> model (objectAfter (runModel env (s\<lparr>buyThreshold := b2\<rparr>) d))
         = model (objectAfter (runModel env (s\<lparr>buyThreshold := b1\<rparr>) d))"
proof -
  assume le: "b1 \<le> b2"
  let ?s = "s\<lparr>buyThreshold := b1\<rparr>" and ?u = "s\<lparr>buyThreshold := b2\<rparr>"
  have res: "resolve env ?u d = resolve env ?s d" by (rule resolve_cong) simp_all
  obtain r s' evs where run: "runModel env ?s d = (r, s', evs)"
    by (cases "runModel env ?s d") auto
  from run show ?thesis
  proof (cases rule: runModel_shape)
    case (unresolved x)
    with res have "runModel env ?u d = (r, ?u, [])" by (simp add: runModel_def)
    with run unresolved show ?thesis by simp
  next
    case (untrained trS trE teS teE row x)
    have "initialTraining env (?u\<lparr>dates := dates ?u @ [row]\<rparr>) d trS trE teS
        = initialTraining env (?s\<lparr>dates := dates ?s @ [row]\<rparr>) d trS trE teS"
      by (rule initialTraining_same) simp_all
    with untrained res have "runModel env ?u d = (r, ?u\<lparr>dates := dates ?u @ [row]\<rparr>, [])"
      by (simp add: runModel_def)
    with run untrained show ?thesis by simp
  next
    case (tested trS trE teS teE row L0 L s1)
    let ?sd = "?s\<lparr>dates := dates ?s @ [row]\<rparr>" and ?ud = "?u\<lparr>dates := dates ?u @ [row]\<rparr>"
    have it: "initialTraining env ?ud d trS trE teS = Inr L0"
      using tested(2) initialTraining_same [of ?ud ?sd env d trS trE teS] by simp
    have "variables ?ud = variables ?sd" "continuedTraining ?ud = continuedTraining ?sd"
      "buyThreshold ?sd \<le> buyThreshold ?ud" using le by simp_all
    from testLoop_mono [OF this tested(3)] obtain u1 evs' where
      tu: "testLoop env d teE L0 ?ud = (r, L, u1, evs')"
      and b: "totalBuys u1 - totalBuys ?ud \<le> totalBuys s1 - totalBuys ?sd" by blast
    from testLoop_setup [OF tested(3)] have ss: "setupOf s1 = setupOf ?sd" by simp
    from testLoop_setup [OF tu] have us: "setupOf u1 = setupOf ?ud" by simp
    have old: "XX s1 = XX s" "yy s1 = yy s" "model s1 = model s"
      "XX u1 = XX s" "yy u1 = yy s" "model u1 = model s"
      by (simp_all add: same_setup [OF ss] same_setup [OF us])
    define u' where "u' = (case r of
         Some x \<Rightarrow> u1
       | None \<Rightarrow> u1\<lparr>XX := Some (loc_XX L), yy := Some (loc_yy L), model := Some (loc_model L)\<rparr>)"
    from tested(1) res it tu have ru: "runModel env ?u d = (r, u', evs')"
      by (cases r) (simp_all add: runModel_def u'_def)
    have "totalBuys u' \<le> totalBuys s'" "XX u' = XX s'" "yy u' = yy s'" "model u' = model s'"
      using b tested(4) old by (cases r; simp add: u'_def)+
    with run ru show ?thesis by simp
  qed
qed

theorem C5_buy_threshold_monotone_witness:
  "(1/2 :: real) \<le> 7/10
   \<and> totalBuys (objectAfter (runModel ex_env ((ex_bt (1/2) (1/2) True)\<lparr>buyThreshold := 7/10\<rparr>) ex_data)) = 1
   \<and> totalBuys (objectAfter (runModel ex_env ((ex_bt (1/2) (1/2) True)\<lparr>buyThreshold := 1/2\<rparr>) ex_data)) = 3
   \<and> raisedBy (runModel ex_env ((ex_bt (1/2) (1/2) True)\<lparr>buyThreshold := 7/10\<rparr>) ex_data)
       = raisedBy (runModel ex_env ((ex_bt (1/2) (1/2) True)\<lparr>buyThreshold := 1/2\<rparr>) ex_data)"
proof -
  have h: "(1/2 :: real) \<le> 7/10" by simp
  have v: "totalBuys (objectAfter (runModel ex_env ((ex_bt (1/2) (1/2) True)\<lparr>buyThreshold := 7/10\<rparr>) ex_data)) = 1"
    "totalBuys (objectAfter (runModel ex_env ((ex_bt (1/2) (1/2) True)\<lparr>buyThreshold := 1/2\<rparr>) ex_data)) = 3"
    by (simp_all add: ex_eval)
  from C5_buy_threshold_monotone [OF h, of ex_env "ex_bt (1/2) (1/2) True" ex_data] v h
  show ?thesis by simp
qed

text \<open>
  C6, as the code has it. In every state an object can be in, with totals below
  \<open>2^53\<close>: \<open>buyStats\<close> raises nothing and returns a finite float between 0 and 100. It
  is exactly 0.0 when \<open>totalBuys\<close> is 0; otherwise it is the quotient
  \<open>correctBuys / totalBuys\<close> rounded to a double, times 100 rounded to a double, rounded
  to hundredths. \<open>sellStats\<close> does the same on the sell counters.
\<close>

theorem C6_accuracy:
  "reachable env s \<Longrightarrow> totalBuys s < 2 ^ 53 \<Longrightarrow> totalSells s < 2 ^ 53 \<Longrightarrow>
     buyStats s = Inr (Fin (accuracy_float (correctBuys s) (totalBuys s)))
     \<and> sellStats s = Inr (Fin (accuracy_float (correctSells s) (totalSells s)))
     \<and> (totalBuys s = 0 \<longrightarrow> buyStats s = Inr (Fin 0))
     \<and> (totalSells s = 0 \<longrightarrow> sellStats s = Inr (Fin 0))
     \<and> 0 \<le> accuracy_float (correctBuys s) (totalBuys s)
     \<and> accuracy_float (correctBuys s) (totalBuys s) \<le> 100
     \<and> 0 \<le> accuracy_float (correctSells s) (totalSells s)
     \<and> accuracy_float (correctSells s) (totalSells s) \<le> 100"
proof -
  assume "reachable env s" and tb: "totalBuys s < 2 ^ 53" and ts: "totalSells s < 2 ^ 53"
  then have "counters_ok s" by (simp add: reachable_counters_ok)
  then have b: "0 \<le> correctBuys s" "correctBuys s \<le> totalBuys s"
    and sl: "0 \<le> correctSells s" "correctSells s \<le> totalSells s"
    by (simp_all add: counters_ok_def)
  from stats_ordered [OF b tb]
  have B: "buyStats s = Inr (Fin (accuracy_float (correctBuys s) (totalBuys s)))"
    "0 \<le> accuracy_float (correctBuys s) (totalBuys s)"
    "accuracy_float (correctBuys s) (totalBuys s) \<le> 100"
    by (simp_all add: buyStats_def)
  from stats_ordered [OF sl ts]
  have S: "sellStats s = Inr (Fin (accuracy_float (correctSells s) (totalSells s)))"
    "0 \<le> accuracy_float (correctSells s) (totalSells s)"
    "accuracy_float (correctSells s) (totalSells s) \<le> 100"
    by (simp_all add: sellStats_def)
  have zb: "totalBuys s = 0 \<longrightarrow> buyStats s = Inr (Fin 0)"
    using B(1) by (simp add: accuracy_float_def)
  have zs: "totalSells s = 0 \<longrightarrow> sellStats s = Inr (Fin 0)"
    using S(1) by (simp add: accuracy_float_def)
  from B S zb zs show ?thesis by blast
qed

theorem C6_accuracy_witness:
  "reachable ex_env (ex_bt (1/2) (1/2) True)
   \<and> totalBuys (ex_bt (1/2) (1/2) True) = 0 \<and> totalSells (ex_bt (1/2) (1/2) True) = 0
   \<and> buyStats (ex_bt (1/2) (1/2) True) = Inr (Fin 0)
   \<and> sellStats (ex_bt (1/2) (1/2) True) = Inr (Fin 0)
   \<and> reachable ex_env (objectAfter ex_run)
   \<and> totalBuys (objectAfter ex_run) = 3 \<and> correctBuys (objectAfter ex_run) = 1
   \<and> totalSells (objectAfter ex_run) = 0
   \<and> buyStats (objectAfter ex_run) = Inr (Fin (double (3333 / 100)))
   \<and> sellStats (objectAfter ex_run) = Inr (Fin 0)"
proof -
  have r0: "reachable ex_env (ex_bt (1/2) (1/2) True)" by (rule ex_bt_reachable)
  have v0: "totalBuys (ex_bt (1/2) (1/2) True) = 0" "totalSells (ex_bt (1/2) (1/2) True) = 0"
    by (simp_all add: ex_bt_def)
  have l0: "totalBuys (ex_bt (1/2) (1/2) True) < 2 ^ 53" "totalSells (ex_bt (1/2) (1/2) True) < 2 ^ 53"
    by (simp_all add: ex_bt_def)
  from C6_accuracy [OF r0 l0] v0
  have a: "buyStats (ex_bt (1/2) (1/2) True) = Inr (Fin 0)" "sellStats (ex_bt (1/2) (1/2) True) = Inr (Fin 0)"
    by blast+
  have r: "reachable ex_env (objectAfter ex_run)" by (rule ex_run_reachable(1))
  have v: "totalBuys (objectAfter ex_run) = 3" "correctBuys (objectAfter ex_run) = 1"
    "totalSells (objectAfter ex_run) = 0"
    by (simp_all add: ex_run_def ex_eval)
  have e: "accuracy_float 1 3 = double (3333 / 100)"
    by (simp add: accuracy_float_def double_eval)
  have l: "totalBuys (objectAfter ex_run) < 2 ^ 53" "totalSells (objectAfter ex_run) < 2 ^ 53"
    by (simp_all add: v)
  from C6_accuracy [OF r l]
  have "buyStats (objectAfter ex_run) = Inr (Fin (accuracy_float (correctBuys (objectAfter ex_run)) (totalBuys (objectAfter ex_run))))"
    and "totalSells (objectAfter ex_run) = 0 \<longrightarrow> sellStats (objectAfter ex_run) = Inr (Fin 0)"
    by blast+
  with v e
  have b: "buyStats (objectAfter ex_run) = Inr (Fin (double (3333 / 100)))"
    "sellStats (objectAfter ex_run) = Inr (Fin 0)"
    by simp_all
  from r0 v0 a r v b show ?thesis by simp
qed

text \<open>
  C6, as the specification states it, fails. With 23 correct buys out of 160 the exact
  value is 14.375 and \<open>round(100 * 23/160, 2)\<close> is 14.38, but the code divides first:
  the double nearest to \<open>23/160\<close> lies below it, its product with 100 is the double just
  below 14.375, and \<open>buyStats\<close> returns 14.37.
\<close>

theorem C6_counterexample:
  "buyStats ((ex_bt (1/2) (1/2) False)\<lparr>totalBuys := 160, correctBuys := 23\<rparr>)
     = Inr (Fin (double (1437 / 100)))
   \<and> accuracy_spec 23 160 = 1438 / 100
   \<and> double (1437 / 100) \<noteq> double (1438 / 100)"
proof (intro conjI)
  have d1: "double (23 / 160) = 5179139571476070 / 2 ^ 55"
    by (simp add: double_eval)
  have d2: "double (5179139571476070 / 2 ^ 55 * 100) = 8092405580431359 / 2 ^ 49"
    by (simp add: double_eval)
  have r3: "round2 (8092405580431359 / 2 ^ 49) = 1437 / 100"
    by (simp add: double_eval)
  have "stats 23 160 = Inr (Fin (accuracy_float 23 160))"
    using stats_ordered [of 23 160] by simp
  also have "accuracy_float 23 160 = double (round2 (double (double (23 / 160) * 100)))"
    by (simp add: accuracy_float_def)
  also have "\<dots> = double (1437 / 100)"
    by (simp only: d1 d2 r3)
  finally show "buyStats ((ex_bt (1/2) (1/2) False)\<lparr>totalBuys := 160, correctBuys := 23\<rparr>)
     = Inr (Fin (double (1437 / 100)))"
    by (simp add: buyStats_def)
  show "accuracy_spec 23 160 = 1438 / 100"
    by (simp add: accuracy_spec_def double_eval)
  have "double (1437 / 100) = 8089590830664253 / 2 ^ 49" by (simp add: double_eval)
  moreover have "double (1438 / 100) = 8095220330198467 / 2 ^ 49" by (simp add: double_eval)
  ultimately show "double (1437 / 100) \<noteq> double (1438 / 100)" by simp
qed

text \<open>
  C7. A new object has all four counters at zero and no dates. A run never resets them:
  it raises what it would raise on an object with the same configuration and new
  statistics, it leaves each counter at its value before the run plus what that run
  counts from zero, and it leaves the date list at its value before the run followed by
  the rows that run records. So no counter ever decreases, and a second run adds to the
  first.
\<close>

theorem C7_cumulative:
  "(Backtest_init tz vars trS trE teS teE buyT sellT c g ct = Inr s0 \<longrightarrow>
      totalBuys s0 = 0 \<and> correctBuys s0 = 0 \<and> totalSells s0 = 0 \<and> correctSells s0 = 0
      \<and> dates s0 = [] \<and> stocks s0 = [])
   \<and> raisedBy (runModel env s d) = raisedBy (runModel env (resetStats s) d)
   \<and> totalBuys (objectAfter (runModel env s d))
        = totalBuys s + totalBuys (objectAfter (runModel env (resetStats s) d))
   \<and> correctBuys (objectAfter (runModel env s d))
        = correctBuys s + correctBuys (objectAfter (runModel env (resetStats s) d))
   \<and> totalSells (objectAfter (runModel env s d))
        = totalSells s + totalSells (objectAfter (runModel env (resetStats s) d))
   \<and> correctSells (objectAfter (runModel env s d))
        = correctSells s + correctSells (objectAfter (runModel env (resetStats s) d))
   \<and> dates (objectAfter (runModel env s d))
        = dates s @ dates (objectAfter (runModel env (resetStats s) d))
   \<and> totalBuys s \<le> totalBuys (objectAfter (runModel env s d))
   \<and> correctBuys s \<le> correctBuys (objectAfter (runModel env s d))
   \<and> totalSells s \<le> totalSells (objectAfter (runModel env s d))
   \<and> correctSells s \<le> correctSells (objectAfter (runModel env s d))"
proof -
  have init: "Backtest_init tz vars trS trE teS teE buyT sellT c g ct = Inr s0 \<longrightarrow>
      totalBuys s0 = 0 \<and> correctBuys s0 = 0 \<and> totalSells s0 = 0 \<and> correctSells s0 = 0
      \<and> dates s0 = [] \<and> stocks s0 = []"
    by (auto simp: Backtest_init_def split: sum.splits)
  obtain r s' evs where run: "runModel env s d = (r, s', evs)"
    by (cases "runModel env s d") auto
  from runModel_shift [OF resetStats_idem run] obtain u' evs' a b c' e rows where
    ru: "runModel env (resetStats s) d = (r, u', evs')"
    and d: "dates s' = dates s @ rows" "dates u' = rows"
    and t: "totalBuys s' = totalBuys s + a" "totalBuys u' = a"
      "correctBuys s' = correctBuys s + b" "correctBuys u' = b"
      "totalSells s' = totalSells s + c'" "totalSells u' = c'"
      "correctSells s' = correctSells s + e" "correctSells u' = e"
    and bounds: "0 \<le> b" "b \<le> a" "0 \<le> e" "e \<le> c'"
    by (auto simp: resetStats_stats)
  from run ru d t bounds init show ?thesis by simp
qed

theorem C7_cumulative_witness:
  "Backtest_init ex_tz [''Close''] ''1'' ''3'' ''4'' ''7'' (1/2) (1/2) 1 10 True
     = Inr ((ex_bt (1/2) (1/2) True)\<lparr>stocks := []\<rparr>)
   \<and> totalBuys ((ex_bt (1/2) (1/2) True)\<lparr>stocks := []\<rparr>) = 0
   \<and> dates ((ex_bt (1/2) (1/2) True)\<lparr>stocks := []\<rparr>) = []
   \<and> totalBuys (objectAfter ex_run) = 3
   \<and> correctBuys (objectAfter ex_run) = 1
   \<and> totalBuys (objectAfter (runModel ex_env ((objectAfter ex_run)\<lparr>stocks := [''TSLA'', ''AAPL'']\<rparr>) ex_data)) = 6
   \<and> correctBuys (objectAfter (runModel ex_env ((objectAfter ex_run)\<lparr>stocks := [''TSLA'', ''AAPL'']\<rparr>) ex_data)) = 2
   \<and> length (dates (objectAfter (runModel ex_env ((objectAfter ex_run)\<lparr>stocks := [''TSLA'', ''AAPL'']\<rparr>) ex_data))) = 2"
proof -
  let ?s = "(objectAfter ex_run)\<lparr>stocks := [''TSLA'', ''AAPL'']\<rparr>"
  have i: "Backtest_init ex_tz [''Close''] ''1'' ''3'' ''4'' ''7'' (1/2) (1/2) 1 10 True
     = Inr ((ex_bt (1/2) (1/2) True)\<lparr>stocks := []\<rparr>)"
    using ex_new_eq [of "1/2" "1/2" True] by (simp add: ex_new_def)
  have first: "totalBuys ?s = 3" "correctBuys ?s = 1" "length (dates ?s) = 1"
    by (simp_all add: ex_run_def ex_eval)
  have fresh: "totalBuys (objectAfter (runModel ex_env (resetStats ?s) ex_data)) = 3"
    "correctBuys (objectAfter (runModel ex_env (resetStats ?s) ex_data)) = 1"
    "length (dates (objectAfter (runModel ex_env (resetStats ?s) ex_data))) = 1"
    by (simp_all add: ex_run_def resetStats_def ex_eval)
  from C7_cumulative
    [of ex_tz "[''Close'']" "''1''" "''3''" "''4''" "''7''" "1/2" "1/2" 1 10 True
        "(ex_bt (1/2) (1/2) True)\<lparr>stocks := []\<rparr>" ex_env ?s ex_data]
    i first fresh
  show ?thesis by simp
qed

text \<open>
  C8. Visualisation needs exactly two features and a completed run. When the object has
  another number of features, or lacks the training matrix, the labels or the classifier,
  \<open>visualizeModel\<close> prints one error message and returns: nothing is raised, no figure
  is saved and the object is unchanged. A newly constructed object is in that case.
\<close>

theorem C8_visualize_precondition:
  "(length (variables s) \<noteq> 2 \<or> XX s = None \<or> yy s = None \<or> model s = None \<longrightarrow>
      visualizeModel env width height stepsize s =
        (None,
         [Print (if length (variables s) \<noteq> 2 then ''Error: Plotting is restricted to 2 dimensions''
                 else ''Error: Please run model before visualizing'')],
         s))
   \<and> (Backtest_init tz vars trS trE teS teE buyT sellT c g ct = Inr s0 \<longrightarrow>
      visualizeModel env width height stepsize s0 =
        (None,
         [Print (if length vars \<noteq> 2 then ''Error: Plotting is restricted to 2 dimensions''
                 else ''Error: Please run model before visualizing'')],
         s0))"
  by (auto simp: visualizeModel_def Backtest_init_def split: sum.splits)

theorem C8_visualize_precondition_witness:
  "Backtest_init ex_tz [''Open'', ''Close''] ''1'' ''3'' ''4'' ''7'' (1/2) (1/2) 1 10 False
     = Inr ((ex_bt (1/2) (1/2) False)\<lparr>variables := [''Open'', ''Close''], stocks := []\<rparr>)
   \<and> XX ((ex_bt (1/2) (1/2) False)\<lparr>variables := [''Open'', ''Close''], stocks := []\<rparr>) = None
   \<and> visualizeModel ex_env 5 5 (1/50)
        ((ex_bt (1/2) (1/2) False)\<lparr>variables := [''Open'', ''Close''], stocks := []\<rparr>)
      = (None, [Print ''Error: Please run model before visualizing''],
         (ex_bt (1/2) (1/2) False)\<lparr>variables := [''Open'', ''Close''], stocks := []\<rparr>)"
proof -
  let ?s = "(ex_bt (1/2) (1/2) False)\<lparr>variables := [''Open'', ''Close''], stocks := []\<rparr>"
  have i: "Backtest_init ex_tz [''Open'', ''Close''] ''1'' ''3'' ''4'' ''7'' (1/2) (1/2) 1 10 False = Inr ?s"
    by (simp add: ex_bt_def Backtest_init_def ex_tz_def)
  have x: "XX ?s = None" by (simp add: ex_bt_def)
  from C8_visualize_precondition
    [of ?s ex_env 5 5 "1/50" ex_tz "[''Open'', ''Close'']" "''1''" "''3''" "''4''" "''7''" "1/2" "1/2" 1 10 False ?s]
  show ?thesis using i x by simp
qed

text \<open>
  C9, as the code has it. The constructor validates no threshold: whenever the four
  window dates convert, construction succeeds for every \<open>buyThreshold\<close> and
  \<open>sellThreshold\<close>, inside \<open>[0,1]\<close> or not, and stores both unchanged.
\<close>

theorem C9_thresholds_unchecked:
  "tz trS = Inr a \<Longrightarrow> tz trE = Inr b \<Longrightarrow> tz teS = Inr c' \<Longrightarrow> tz teE = Inr d' \<Longrightarrow>
     \<exists>s. Backtest_init tz vars trS trE teS teE buyT sellT c g ct = Inr s
         \<and> buyThreshold s = buyT \<and> sellThreshold s = sellT"
  by (simp add: Backtest_init_def)

theorem C9_thresholds_unchecked_witness:
  "ex_tz ''1'' = Inr 1 \<and> ex_tz ''3'' = Inr 3 \<and> ex_tz ''4'' = Inr 4 \<and> ex_tz ''7'' = Inr 7
   \<and> (\<exists>s. (Backtest_init ex_tz [''Close''] ''1'' ''3'' ''4'' ''7'' 2 (- 1) 1 10 False
              :: error + (int, real) backtest) = Inr s
          \<and> buyThreshold s = 2 \<and> sellThreshold s = - 1)"
proof -
  have h: "ex_tz ''1'' = Inr 1" "ex_tz ''3'' = Inr 3" "ex_tz ''4'' = Inr 4" "ex_tz ''7'' = Inr 7"
    by (simp_all add: ex_tz_def)
  from C9_thresholds_unchecked
    [where tz = ex_tz and trS = "''1''" and trE = "''3''" and teS = "''4''" and teE = "''7''"
       and vars = "[''Close'']" and buyT = 2 and sellT = "- 1" and c = 1 and g = 10 and ct = False,
     OF h]
  show ?thesis using h by simp
qed

text \<open>
  C9, as the specification states it, fails: a threshold of 2 and one of -1 are accepted
  by the constructor, and a run with them completes without raising.
\<close>

theorem C9_counterexample:
  "ex_new 2 (- 1) False = Inr ((ex_bt 2 (- 1) False)\<lparr>stocks := []\<rparr>)
   \<and> raisedBy (runModel ex_env (ex_bt 2 (- 1) False) ex_data) = None"
proof
  show "ex_new 2 (- 1) False = Inr ((ex_bt 2 (- 1) False)\<lparr>stocks := []\<rparr>)"
    by (rule ex_new_eq)
  show "raisedBy (runModel ex_env (ex_bt 2 (- 1) False) ex_data) = None"
    by (simp add: ex_eval)
qed

text \<open>
  C10. In every state an object can be in, after any sequence of runs, completed or
  aborted, and between the counting of a decision and the judging of its outcome, each
  correct counter is at least zero and at most its total. In one pass of the test loop a
  correct counter grows by at most what its total grew by in that pass, and that by at
  most one.
\<close>

theorem C10_correct_at_most_total:
  "(reachable env s \<longrightarrow>
      0 \<le> correctBuys s \<and> correctBuys s \<le> totalBuys s
      \<and> 0 \<le> correctSells s \<and> correctSells s \<le> totalSells s)
   \<and> (period env d L u = (r, L', u', evs) \<longrightarrow>
      0 \<le> correctBuys u' - correctBuys u
      \<and> correctBuys u' - correctBuys u \<le> totalBuys u' - totalBuys u
      \<and> totalBuys u' - totalBuys u \<le> 1
      \<and> 0 \<le> correctSells u' - correctSells u
      \<and> correctSells u' - correctSells u \<le> totalSells u' - totalSells u
      \<and> totalSells u' - totalSells u \<le> 1)"
proof (intro conjI impI)
  assume "reachable env s"
  then have "counters_ok s" by (rule reachable_counters_ok)
  then show "0 \<le> correctBuys s" "correctBuys s \<le> totalBuys s"
    "0 \<le> correctSells s" "correctSells s \<le> totalSells s"
    by (simp_all add: counters_ok_def)
next
  assume "period env d L u = (r, L', u', evs)"
  from period_increments [OF this]
  show "0 \<le> correctBuys u' - correctBuys u"
    "correctBuys u' - correctBuys u \<le> totalBuys u' - totalBuys u"
    "totalBuys u' - totalBuys u \<le> 1"
    "0 \<le> correctSells u' - correctSells u"
    "correctSells u' - correctSells u \<le> totalSells u' - totalSells u"
    "totalSells u' - totalSells u \<le> 1"
    by simp_all
qed

theorem C10_correct_at_most_total_witness:
  "reachable ex_env (stateOf (logOf ex_run ! 2))
   \<and> totalBuys (stateOf (logOf ex_run ! 2)) = 2
   \<and> correctBuys (stateOf (logOf ex_run ! 2)) = 1
   \<and> period ex_env ex_data
        \<lparr>testPeriod = 4, loc_X = [], loc_y = [], loc_XX = [], loc_yy = [], loc_model = 2/3\<rparr>
        (ex_bt (1/2) (1/2) False)
      = (None,
         \<lparr>testPeriod = 5, loc_X = [], loc_y = [], loc_XX = [], loc_yy = [], loc_model = 2/3\<rparr>,
         (ex_bt (1/2) (1/2) False)\<lparr>totalBuys := 1, correctBuys := 1\<rparr>,
         [Decided 4 (1/3) (2/3) 1 ((ex_bt (1/2) (1/2) False)\<lparr>totalBuys := 1\<rparr>),
          Judged 5 1 ((ex_bt (1/2) (1/2) False)\<lparr>totalBuys := 1, correctBuys := 1\<rparr>)])
   \<and> correctBuys ((ex_bt (1/2) (1/2) False)\<lparr>totalBuys := 1, correctBuys := 1\<rparr>)
        - correctBuys (ex_bt (1/2) (1/2) False)
      \<le> totalBuys ((ex_bt (1/2) (1/2) False)\<lparr>totalBuys := 1, correctBuys := 1\<rparr>)
        - totalBuys (ex_bt (1/2) (1/2) False)"
proof -
  have m: "logOf ex_run ! 2 \<in> set (logOf ex_run)" by (simp add: ex_run_def ex_eval)
  have r: "reachable ex_env (stateOf (logOf ex_run ! 2))" by (rule ex_run_reachable(2) [OF m])
  have v: "totalBuys (stateOf (logOf ex_run ! 2)) = 2" "correctBuys (stateOf (logOf ex_run ! 2)) = 1"
    by (simp_all add: ex_run_def ex_eval)
  have p: "period ex_env ex_data
        \<lparr>testPeriod = 4, loc_X = [], loc_y = [], loc_XX = [], loc_yy = [], loc_model = 2/3\<rparr>
        (ex_bt (1/2) (1/2) False)
      = (None,
         \<lparr>testPeriod = 5, loc_X = [], loc_y = [], loc_XX = [], loc_yy = [], loc_model = 2/3\<rparr>,
         (ex_bt (1/2) (1/2) False)\<lparr>totalBuys := 1, correctBuys := 1\<rparr>,
         [Decided 4 (1/3) (2/3) 1 ((ex_bt (1/2) (1/2) False)\<lparr>totalBuys := 1\<rparr>),
          Judged 5 1 ((ex_bt (1/2) (1/2) False)\<lparr>totalBuys := 1, correctBuys := 1\<rparr>)])"
    by (simp add: ex_eval)
  from C10_correct_at_most_total
    [of ex_env "stateOf (logOf ex_run ! 2)" ex_data
        "\<lparr>testPeriod = 4, loc_X = [], loc_y = [], loc_XX = [], loc_yy = [], loc_model = 2/3\<rparr>"
        "ex_bt (1/2) (1/2) False" None
        "\<lparr>testPeriod = 5, loc_X = [], loc_y = [], loc_XX = [], loc_yy = [], loc_model = 2/3\<rparr>"
        "(ex_bt (1/2) (1/2) False)\<lparr>totalBuys := 1, correctBuys := 1\<rparr>"
        "[Decided 4 (1/3) (2/3) 1 ((ex_bt (1/2) (1/2) False)\<lparr>totalBuys := 1\<rparr>),
          Judged 5 1 ((ex_bt (1/2) (1/2) False)\<lparr>totalBuys := 1, correctBuys := 1\<rparr>)]"]
    r p
  have "correctBuys ((ex_bt (1/2) (1/2) False)\<lparr>totalBuys := 1, correctBuys := 1\<rparr>)
        - correctBuys (ex_bt (1/2) (1/2) False)
      \<le> totalBuys ((ex_bt (1/2) (1/2) False)\<lparr>totalBuys := 1, correctBuys := 1\<rparr>)
        - totalBuys (ex_bt (1/2) (1/2) False)"
    by blast
  with r v p show ?thesis by blast
qed

end
